theory Spec2Isabelle
  imports Complex_Main
begin

section \<open>Values and strings of the server\<close>

text \<open>
  The server is the WebSocket room coordinator of the planning-poker repository
  (the file with \<^verbatim>\<open>handleMessage\<close>, \<^verbatim>\<open>checkRateLimit\<close>, \<^verbatim>\<open>sanitizeName\<close>).
  A JavaScript string is a sequence of UTF-16 code units; it is modelled as the list of
  its code units, so that \<^verbatim>\<open>.length\<close> and \<^verbatim>\<open>.slice(0, 20)\<close> count what the
  source counts. \<open>str\<close> writes an ASCII literal.
\<close>

type_synonym jsstring = "nat list"

definition str :: "string \<Rightarrow> jsstring" where
  "str s = map of_char s"

text \<open>
  A value taken from a parsed JSON message. The code only ever asks of such a value
  whether it is \<^verbatim>\<open>null\<close>, missing (\<^verbatim>\<open>undefined\<close>), or a string (and which);
  booleans, numbers, arrays and objects are all \<open>JOther\<close>.
\<close>

datatype jsval = JUndefined | JNull | JStr jsstring | JOther

section \<open>Configuration constants\<close>

definition RATE_LIMIT_WINDOW_MS :: int where "RATE_LIMIT_WINDOW_MS = 5000"
definition RATE_LIMIT_MAX_MESSAGES :: nat where "RATE_LIMIT_MAX_MESSAGES = 20"
definition MAX_NAME_LENGTH :: nat where "MAX_NAME_LENGTH = 20"
definition MAX_ROOMS :: nat where "MAX_ROOMS = 1000"
definition MAX_PLAYERS_PER_ROOM :: nat where "MAX_PLAYERS_PER_ROOM = 50"

text \<open>
  \<^verbatim>\<open>CARD_VALUES = ['0', '\<onehalf>', '1', '2', '3', '5', '8', '13', '21', '?', '\<dots>']\<close>: the second
  card is the single unit U+00BD (189), the last one the single unit U+2615 (9749).
\<close>

definition CARD_VALUES :: "jsstring list" where
  "CARD_VALUES = [str ''0'', [189], str ''1'', str ''2'', str ''3'', str ''5'', str ''8'',
                  str ''13'', str ''21'', str ''?'', [9749]]"

section \<open>Security utilities\<close>

subsection \<open>Rate limiting check\<close>

text \<open>
  \<^verbatim>\<open>checkRateLimit(ws)\<close> reads the clock and reads and writes \<^verbatim>\<open>ws.messageTimestamps\<close>.
  The model takes the clock reading \<open>now\<close> and the field (\<open>None\<close> when the field is
  falsy, i.e. not yet set) and returns the verdict with the field's new contents.
\<close>

definition in_window :: "int \<Rightarrow> int \<Rightarrow> bool" where
  "in_window now t \<longleftrightarrow> now - t < RATE_LIMIT_WINDOW_MS"

definition checkRateLimit :: "int \<Rightarrow> int list option \<Rightarrow> bool \<times> int list" where
  "checkRateLimit now stamps =
     (let ts0 = (case stamps of None \<Rightarrow> [] | Some ts \<Rightarrow> ts);
          ts1 = filter (in_window now) ts0
      in if length ts1 \<ge> RATE_LIMIT_MAX_MESSAGES then (False, ts1)
         else (True, ts1 @ [now]))"

subsection \<open>Sanitize player name\<close>

text \<open>
  \<^verbatim>\<open>String.prototype.trim\<close> removes the ECMAScript white space and line terminator code
  points from both ends: TAB, LF, VT, FF, CR, SP, NBSP, U+1680, U+2000 to U+200A, U+2028,
  U+2029, U+202F, U+205F, U+3000 and U+FEFF.
\<close>

definition is_space :: "nat \<Rightarrow> bool" where
  "is_space c \<longleftrightarrow>
     c \<in> set [9, 10, 11, 12, 13, 32, 160, 5760, 8232, 8233, 8239, 8287, 12288, 65279]
     \<or> (8192 \<le> c \<and> c \<le> 8202)"

definition trim :: "jsstring \<Rightarrow> jsstring" where
  "trim s = rev (dropWhile is_space (rev (dropWhile is_space s)))"

text \<open>
  \<^verbatim>\<open>.replace(/<[^>]*>/g, '')\<close>. A match starts at a \<^verbatim>\<open><\<close> (unit 60); the class
  \<^verbatim>\<open>[^>]*\<close> is greedy and takes every unit up to the next \<^verbatim>\<open>>\<close> (unit 62), which closes
  the match; when no \<^verbatim>\<open>>\<close> follows there is no match at this \<^verbatim>\<open><\<close>, which stays.
  The scan goes on after the end of a match (matches do not overlap, and the result is
  not scanned again). \<open>tag_end cs\<close> is what follows the closing \<^verbatim>\<open>>\<close> in \<open>cs\<close>.
\<close>

fun tag_end :: "jsstring \<Rightarrow> jsstring option" where
  "tag_end [] = None"
| "tag_end (c # cs) = (if c = 62 then Some cs else tag_end cs)"

function remove_tags :: "jsstring \<Rightarrow> jsstring" where
  "remove_tags [] = []"
| "remove_tags (c # cs) =
     (if c = 60 then
        (case tag_end cs of
           Some rest \<Rightarrow> remove_tags rest
         | None \<Rightarrow> c # remove_tags cs)
      else c # remove_tags cs)"
  by pat_completeness auto
termination
proof (relation "measure length")
  show "wf (measure length)" by simp
next
  fix c :: nat and cs rest :: jsstring
  assume "c = 60" and te: "tag_end cs = Some rest"
  have "length r < Suc (length xs)" if "tag_end xs = Some r" for xs r
    using that by (induction xs) (auto split: if_splits)
  from this [OF te] show "(rest, c # cs) \<in> measure length" by simp
qed auto

text \<open>
  \<^verbatim>\<open>.replace(/[<>"'`&;()\[\]{}]/g, '')\<close>: the thirteen units
  \<^verbatim>\<open>< > " ' ` & ; ( ) [ ] { }\<close>.
\<close>

definition dangerous :: "nat list" where
  "dangerous = [60, 62, 34, 39, 96, 38, 59, 40, 41, 91, 93, 123, 125]"

definition remove_dangerous :: "jsstring \<Rightarrow> jsstring" where
  "remove_dangerous s = filter (\<lambda>c. c \<notin> set dangerous) s"

text \<open>
  \<^verbatim>\<open>sanitizeName(name)\<close>: \<open>None\<close> is the source's \<^verbatim>\<open>null\<close>. The first test rejects every
  falsy value (among strings, the empty one) and every non-string.
\<close>

definition sanitizeName :: "jsval \<Rightarrow> jsstring option" where
  "sanitizeName name =
     (case name of
        JStr s \<Rightarrow>
          if s = [] then None
          else
            (let sanitized = take MAX_NAME_LENGTH (remove_dangerous (remove_tags (trim s)))
             in if length sanitized \<ge> 1 then Some sanitized else None)
      | _ \<Rightarrow> None)"

subsection \<open>The specification of name sanitizing\<close>

text \<open>
  The specification's description of \<^verbatim>\<open>sanitizeName\<close>, written on its own, to compare the
  function with. Trimming: the string is white space, then the trimmed string, then
  white space, and the trimmed string neither starts nor ends with white space.
  Removing tag-like substrings: reading from the left, a unit other than \<^verbatim>\<open><\<close> stays;
  a \<^verbatim>\<open><\<close> with no \<^verbatim>\<open>>\<close> after it stays; a \<^verbatim>\<open><\<close>, the units up to the next
  \<^verbatim>\<open>>\<close>, and that \<^verbatim>\<open>>\<close> are a tag and go. Then the thirteen units of
  \<^verbatim>\<open><>"'`&;()[]{}\<close> are removed, the result is cut to 20 units, and an empty result
  is rejected; an input that is not text is rejected.
\<close>

definition trimmed_spec :: "jsstring \<Rightarrow> jsstring \<Rightarrow> bool" where
  "trimmed_spec s t \<longleftrightarrow>
     (\<exists>l r. s = l @ t @ r \<and> list_all is_space l \<and> list_all is_space r
            \<and> (t = [] \<or> (\<not> is_space (hd t) \<and> \<not> is_space (last t))))"

inductive strip_tags_spec :: "jsstring \<Rightarrow> jsstring \<Rightarrow> bool" where
  stop: "strip_tags_spec [] []"
| keep: "c \<noteq> 60 \<Longrightarrow> strip_tags_spec cs r \<Longrightarrow> strip_tags_spec (c # cs) (c # r)"
| unclosed: "62 \<notin> set cs \<Longrightarrow> strip_tags_spec cs r \<Longrightarrow> strip_tags_spec (60 # cs) (60 # r)"
| tag: "62 \<notin> set body \<Longrightarrow> strip_tags_spec rest r \<Longrightarrow>
        strip_tags_spec (60 # body @ 62 # rest) r"

definition sanitizeName_spec :: "jsval \<Rightarrow> jsstring option \<Rightarrow> bool" where
  "sanitizeName_spec raw res \<longleftrightarrow>
     (case raw of
        JStr s \<Rightarrow>
          (\<exists>t u. trimmed_spec s t \<and> strip_tags_spec t u
                 \<and> res = (let v = take 20 (filter (\<lambda>c. c \<notin> set [60, 62, 34, 39, 96, 38, 59,
                                                            40, 41, 91, 93, 123, 125]) u)
                          in if v = [] then None else Some v))
      | _ \<Rightarrow> res = None)"

subsection \<open>Validate card value and room code\<close>

text \<open>
  \<^verbatim>\<open>card === null || CARD_VALUES.includes(card)\<close>: \<^verbatim>\<open>includes\<close> compares with
  SameValueZero, so only a string equal to one of the cards is found.
\<close>

definition isValidCard :: "jsval \<Rightarrow> bool" where
  "isValidCard v \<longleftrightarrow>
     v = JNull \<or> (case v of JStr c \<Rightarrow> c \<in> set CARD_VALUES | _ \<Rightarrow> False)"

text \<open>
  \<^verbatim>\<open>/^[A-Z0-9]{4}$/.test(code.toUpperCase())\<close>. \<^verbatim>\<open>String.prototype.toUpperCase\<close> is the
  runtime's Unicode case mapping; it is a parameter \<open>upper\<close> of the model.
\<close>

definition is_code_unit :: "nat \<Rightarrow> bool" where
  "is_code_unit c \<longleftrightarrow> (65 \<le> c \<and> c \<le> 90) \<or> (48 \<le> c \<and> c \<le> 57)"

definition isValidRoomCode :: "(jsstring \<Rightarrow> jsstring) \<Rightarrow> jsval \<Rightarrow> bool" where
  "isValidRoomCode upper code =
     (case code of
        JStr c \<Rightarrow> c \<noteq> [] \<and> length (upper c) = 4 \<and> list_all is_code_unit (upper c)
      | _ \<Rightarrow> False)"

section \<open>Room codes\<close>

text \<open>
  \<^verbatim>\<open>generateRoomCode()\<close> draws four characters of \<open>chars\<close> with \<^verbatim>\<open>Math.random()\<close> and
  calls itself again when the room map already has the code. The random source is the
  list of the values \<^verbatim>\<open>Math.random()\<close> returns, in order; a call that uses the list up
  without finding a free code has not returned, and is \<open>None\<close>. The product
  \<^verbatim>\<open>Math.random() * chars.length\<close> is a multiplication by a power of two, exact in
  floating point, so the index is the floor of the real product. An index outside
  the string reads \<^verbatim>\<open>undefined\<close>, which \<^verbatim>\<open>+=\<close> appends as the text "undefined".
\<close>

definition chars :: jsstring where
  "chars = str ''ABCDEFGHJKLMNPQRSTUVWXYZ23456789''"

definition pick_char :: "real \<Rightarrow> jsstring" where
  "pick_char r =
     (let i = \<lfloor>r * real (length chars)\<rfloor>
      in if 0 \<le> i \<and> nat i < length chars then [chars ! nat i] else str ''undefined'')"

definition draw_code :: "real list \<Rightarrow> jsstring" where
  "draw_code rs = foldl (\<lambda>code r. code @ pick_char r) [] rs"

function generateRoomCode :: "jsstring list \<Rightarrow> real list \<Rightarrow> (jsstring \<times> real list) option" where
  "generateRoomCode live rs =
     (if length rs < 4 then None
      else
        (let code = draw_code (take 4 rs)
         in if code \<in> set live then generateRoomCode live (drop 4 rs)
            else Some (code, drop 4 rs)))"
  by pat_completeness auto
termination
  by (relation "measure (\<lambda>(live, rs). length rs)") auto

section \<open>Game state storage\<close>

text \<open>
  A connection (the \<^verbatim>\<open>ws\<close> object) is identified by a number. Player objects are
  shared: the same object is a value of the global \<^verbatim>\<open>players\<close> map and of its room's
  \<^verbatim>\<open>players\<close> map, and the handlers mutate it through either. They therefore live in a
  store \<open>heap\<close>, addressed by numbers, and both maps hold addresses. A \<^verbatim>\<open>Map\<close> that the
  code iterates over or whose \<^verbatim>\<open>size\<close> it reads is an association list in insertion
  order (\<^verbatim>\<open>set\<close> on a present key replaces the value in place, on a new key appends);
  its keys stay distinct, so its length is its \<^verbatim>\<open>size\<close>. \<open>next_addr\<close> is the first
  free address, where the next player object is put. The fields \<^verbatim>\<open>readyState\<close> and
  \<^verbatim>\<open>messageTimestamps\<close> of the connection objects are kept per connection in the server
  record. The three strings a room's \<^verbatim>\<open>state\<close> takes are the values of \<open>room_state\<close>.
\<close>

type_synonym ws = nat
type_synonym addr = nat

datatype room_state = waiting | voting | revealed

record player =
  p_id :: jsstring
  p_name :: jsstring
  isHost :: bool
  selectedCard :: jsval
  p_roomCode :: jsstring
  sessionToken :: jsstring

record room =
  r_state :: room_state
  r_players :: "(ws \<times> addr) list"
  r_createdAt :: int

record session =
  s_playerId :: jsstring
  s_roomCode :: jsstring
  s_name :: jsstring
  s_createdAt :: int

record server =
  rooms :: "(jsstring \<times> room) list"
  players :: "ws \<rightharpoonup> addr"
  sessionTokens :: "jsstring \<rightharpoonup> session"
  heap :: "addr \<Rightarrow> player"
  next_addr :: addr
  readyState :: "ws \<Rightarrow> nat"
  messageTimestamps :: "ws \<Rightarrow> int list option"

text \<open>\<^verbatim>\<open>Map.prototype.set\<close> and \<^verbatim>\<open>delete\<close> on an insertion-ordered map.\<close>

fun map_set :: "'k \<Rightarrow> 'v \<Rightarrow> ('k \<times> 'v) list \<Rightarrow> ('k \<times> 'v) list" where
  "map_set k v [] = [(k, v)]"
| "map_set k v ((k', v') # kvs) =
     (if k' = k then (k, v) # kvs else (k', v') # map_set k v kvs)"

definition map_delete :: "'k \<Rightarrow> ('k \<times> 'v) list \<Rightarrow> ('k \<times> 'v) list" where
  "map_delete k kvs = filter (\<lambda>kv. fst kv \<noteq> k) kvs"

section \<open>Messages\<close>

text \<open>
  What the server sends: one constructor for each \<^verbatim>\<open>type\<close> of outgoing message, with its
  fields. \<open>snapshot\<close> is the object \<^verbatim>\<open>getRoomState\<close> builds, \<open>player_view\<close> one element
  of its \<^verbatim>\<open>players\<close> array.
\<close>

record player_view =
  v_id :: jsstring
  v_name :: jsstring
  v_isHost :: bool
  hasSelected :: bool
  v_card :: jsval

record snapshot =
  roomCode :: jsstring
  state :: room_state
  playersList :: "player_view list"
  cardValues :: "jsstring list"

datatype server_msg =
    error_msg string
  | room_created jsstring jsstring jsstring "snapshot option"
  | joined_room jsstring jsstring jsstring "snapshot option"
  | player_joined jsstring jsstring bool "snapshot option"
  | round_started "snapshot option"
  | player_selected jsstring "snapshot option"
  | cards_revealed "(jsstring \<times> jsstring \<times> jsval) list" "snapshot option"
  | round_reset "snapshot option"
  | reveal_closed
  | became_host
  | player_left jsstring "snapshot option"

type_synonym sends = "(ws \<times> server_msg) list"

text \<open>
  What a client sends, after \<^verbatim>\<open>JSON.parse\<close>: the \<^verbatim>\<open>switch\<close> of \<^verbatim>\<open>handleMessage\<close> is on
  \<^verbatim>\<open>message.type\<close>, and each case reads the fields shown. \<open>other_type\<close> is any value
  whose \<^verbatim>\<open>type\<close> is none of the seven; \<open>null_message\<close> is the JSON text \<^verbatim>\<open>null\<close>, on
  which reading \<^verbatim>\<open>message.type\<close> throws.
\<close>

datatype message =
    create_room jsval
  | join_room jsval jsval
  | start_round
  | select_card jsval
  | reveal_cards
  | reset_round
  | close_reveal
  | other_type
  | null_message

text \<open>
  The values a handler takes from its environment: the clock (read once for the room,
  once for the session entry), \<^verbatim>\<open>uuidv4()\<close>, \<^verbatim>\<open>generateSessionToken()\<close>, the values of
  \<^verbatim>\<open>Math.random()\<close> and the runtime's \<^verbatim>\<open>toUpperCase\<close>.
\<close>

record env =
  now_room :: int
  now_session :: int
  uuid :: jsstring
  token :: jsstring
  randoms :: "real list"
  toUpperCase :: "jsstring \<Rightarrow> jsstring"

section \<open>Snapshots and broadcast\<close>

definition view_of :: "bool \<Rightarrow> room_state \<Rightarrow> player \<Rightarrow> player_view" where
  "view_of includeVotes st p =
     \<lparr> v_id = p_id p, v_name = p_name p, v_isHost = isHost p,
       hasSelected = (selectedCard p \<noteq> JNull),
       v_card = (if includeVotes \<or> st = revealed then selectedCard p else JNull) \<rparr>"

definition getRoomState :: "server \<Rightarrow> jsstring \<Rightarrow> bool \<Rightarrow> snapshot option" where
  "getRoomState s code includeVotes =
     (case map_of (rooms s) code of
        None \<Rightarrow> None
      | Some r \<Rightarrow>
          Some \<lparr> roomCode = code, state = r_state r,
                 playersList = map (\<lambda>(w, a). view_of includeVotes (r_state r) (heap s a)) (r_players r),
                 cardValues = CARD_VALUES \<rparr>)"

definition broadcastToRoom :: "server \<Rightarrow> jsstring \<Rightarrow> server_msg \<Rightarrow> ws option \<Rightarrow> sends" where
  "broadcastToRoom s code msg excludeWs =
     (case map_of (rooms s) code of
        None \<Rightarrow> []
      | Some r \<Rightarrow>
          map (\<lambda>(w, a). (w, msg))
            (filter (\<lambda>(w, a). Some w \<noteq> excludeWs \<and> readyState s w = 1) (r_players r)))"

text \<open>\<^verbatim>\<open>room.players.forEach(p => p.selectedCard = null)\<close>\<close>

definition clear_cards :: "(ws \<times> addr) list \<Rightarrow> (addr \<Rightarrow> player) \<Rightarrow> (addr \<Rightarrow> player)" where
  "clear_cards ps h = foldl (\<lambda>h (w, a). h(a := (h a)\<lparr>selectedCard := JNull\<rparr>)) h ps"

section \<open>The message handler\<close>

text \<open>
  A handler runs to its end (\<open>Done\<close>, with the new state and the messages sent, in
  order), throws a \<^verbatim>\<open>TypeError\<close> (\<open>Thrown\<close>; every throw of \<^verbatim>\<open>handleMessage\<close> comes
  before its first mutation, so the state is the one it started in), or does not return
  (\<open>NoReturn\<close>: \<^verbatim>\<open>generateRoomCode\<close> found no free code in the random values given).
\<close>

datatype outcome = Done server sends | Thrown | NoReturn

definition new_player :: "env \<Rightarrow> jsstring \<Rightarrow> bool \<Rightarrow> jsstring \<Rightarrow> player" where
  "new_player e nm host code =
     \<lparr> p_id = uuid e, p_name = nm, isHost = host, selectedCard = JNull,
       p_roomCode = code, sessionToken = token e \<rparr>"

definition new_session :: "env \<Rightarrow> jsstring \<Rightarrow> jsstring \<Rightarrow> session" where
  "new_session e nm code =
     \<lparr> s_playerId = uuid e, s_roomCode = code, s_name = nm, s_createdAt = now_session e \<rparr>"

definition handle_create_room :: "env \<Rightarrow> server \<Rightarrow> ws \<Rightarrow> jsval \<Rightarrow> outcome" where
  "handle_create_room e s w raw_name =
     (if length (rooms s) \<ge> MAX_ROOMS then
        Done s [(w, error_msg ''Server is at capacity. Please try again later.'')]
      else
        (case sanitizeName raw_name of
           None \<Rightarrow> Done s [(w, error_msg ''Valid name is required (1-20 characters)'')]
         | Some nm \<Rightarrow>
             (case generateRoomCode (map fst (rooms s)) (randoms e) of
                None \<Rightarrow> NoReturn
              | Some (code, rest) \<Rightarrow>
                  (let a = next_addr s;
                       s' = s\<lparr> heap := (heap s)(a := new_player e nm True code),
                               next_addr := Suc a,
                               rooms := map_set code
                                  \<lparr> r_state = waiting, r_players = [(w, a)],
                                    r_createdAt = now_room e \<rparr> (rooms s),
                               players := (players s)(w \<mapsto> a),
                               sessionTokens := (sessionTokens s)(token e \<mapsto> new_session e nm code) \<rparr>
                   in Done s' [(w, room_created code (uuid e) (token e)
                                     (getRoomState s' code False))]))))"

definition handle_join_room :: "env \<Rightarrow> server \<Rightarrow> ws \<Rightarrow> jsval \<Rightarrow> jsval \<Rightarrow> outcome" where
  "handle_join_room e s w raw_name raw_code =
     (case raw_code of
        JOther \<Rightarrow> Thrown
      | _ \<Rightarrow>
        (let code_v = (case raw_code of JStr c \<Rightarrow> JStr (toUpperCase e c) | _ \<Rightarrow> JUndefined)
         in if \<not> isValidRoomCode (toUpperCase e) code_v then
              Done s [(w, error_msg ''Invalid room code format'')]
            else
              (let code = (case code_v of JStr c \<Rightarrow> c | _ \<Rightarrow> [])
               in case map_of (rooms s) code of
                    None \<Rightarrow> Done s [(w, error_msg ''Room not found'')]
                  | Some r \<Rightarrow>
                      if length (r_players r) \<ge> MAX_PLAYERS_PER_ROOM then
                        Done s [(w, error_msg ''Room is full'')]
                      else
                        (case sanitizeName raw_name of
                           None \<Rightarrow>
                             Done s [(w, error_msg ''Valid name is required (1-20 characters)'')]
                         | Some nm \<Rightarrow>
                             (let a = next_addr s;
                                  s' = s\<lparr> heap := (heap s)(a := new_player e nm False code),
                                          next_addr := Suc a,
                                          rooms := map_set code
                                             (r\<lparr>r_players := map_set w a (r_players r)\<rparr>) (rooms s),
                                          players := (players s)(w \<mapsto> a),
                                          sessionTokens :=
                                             (sessionTokens s)(token e \<mapsto> new_session e nm code) \<rparr>
                              in Done s'
                                   ((w, joined_room code (uuid e) (token e)
                                          (getRoomState s' code False))
                                    # broadcastToRoom s' code
                                        (player_joined (uuid e) nm False
                                           (getRoomState s' code False)) (Some w)))))))"

definition handle_start_round :: "server \<Rightarrow> ws \<Rightarrow> outcome" where
  "handle_start_round s w =
     (case players s w of
        None \<Rightarrow> Done s []
      | Some a \<Rightarrow>
          if \<not> isHost (heap s a) then Done s []
          else
            (let code = p_roomCode (heap s a)
             in case map_of (rooms s) code of
                  None \<Rightarrow> Done s []
                | Some r \<Rightarrow>
                    (let s' = s\<lparr> heap := clear_cards (r_players r) (heap s),
                                 rooms := map_set code (r\<lparr>r_state := voting\<rparr>) (rooms s) \<rparr>
                     in Done s' (broadcastToRoom s' code
                                   (round_started (getRoomState s' code False)) None))))"

definition handle_select_card :: "server \<Rightarrow> ws \<Rightarrow> jsval \<Rightarrow> outcome" where
  "handle_select_card s w c =
     (case players s w of
        None \<Rightarrow> Done s []
      | Some a \<Rightarrow>
          (let code = p_roomCode (heap s a)
           in case map_of (rooms s) code of
                None \<Rightarrow> Done s []
              | Some r \<Rightarrow>
                  if r_state r \<noteq> voting then Done s []
                  else if \<not> isValidCard c then Done s [(w, error_msg ''Invalid card value'')]
                  else
                    (let s' = s\<lparr> heap := (heap s)(a := (heap s a)\<lparr>selectedCard := c\<rparr>) \<rparr>
                     in Done s' (broadcastToRoom s' code
                                   (player_selected (p_id (heap s' a))
                                      (getRoomState s' code False)) None))))"

definition handle_reveal_cards :: "server \<Rightarrow> ws \<Rightarrow> outcome" where
  "handle_reveal_cards s w =
     (case players s w of
        None \<Rightarrow> Done s []
      | Some a \<Rightarrow>
          if \<not> isHost (heap s a) then Done s []
          else
            (let code = p_roomCode (heap s a)
             in case map_of (rooms s) code of
                  None \<Rightarrow> Done s []
                | Some r \<Rightarrow>
                    (let s' = s\<lparr> rooms := map_set code (r\<lparr>r_state := revealed\<rparr>) (rooms s) \<rparr>;
                         revealOrder =
                           map (\<lambda>(w', a'). (p_id (heap s' a'), p_name (heap s' a'),
                                             selectedCard (heap s' a'))) (r_players r)
                     in Done s' (broadcastToRoom s' code
                                   (cards_revealed revealOrder (getRoomState s' code True)) None))))"

definition handle_reset_round :: "server \<Rightarrow> ws \<Rightarrow> outcome" where
  "handle_reset_round s w =
     (case players s w of
        None \<Rightarrow> Done s []
      | Some a \<Rightarrow>
          if \<not> isHost (heap s a) then Done s []
          else
            (let code = p_roomCode (heap s a)
             in case map_of (rooms s) code of
                  None \<Rightarrow> Done s []
                | Some r \<Rightarrow>
                    (let s' = s\<lparr> heap := clear_cards (r_players r) (heap s),
                                 rooms := map_set code (r\<lparr>r_state := waiting\<rparr>) (rooms s) \<rparr>
                     in Done s' (broadcastToRoom s' code
                                   (round_reset (getRoomState s' code False)) None))))"

definition handle_close_reveal :: "server \<Rightarrow> ws \<Rightarrow> outcome" where
  "handle_close_reveal s w =
     (case players s w of
        None \<Rightarrow> Done s []
      | Some a \<Rightarrow>
          if \<not> isHost (heap s a) then Done s []
          else Done s (broadcastToRoom s (p_roomCode (heap s a)) reveal_closed None))"

fun handleMessage :: "env \<Rightarrow> server \<Rightarrow> ws \<Rightarrow> message \<Rightarrow> outcome" where
  "handleMessage e s w (create_room nm) = handle_create_room e s w nm"
| "handleMessage e s w (join_room nm code) = handle_join_room e s w nm code"
| "handleMessage e s w start_round = handle_start_round s w"
| "handleMessage e s w (select_card c) = handle_select_card s w c"
| "handleMessage e s w reveal_cards = handle_reveal_cards s w"
| "handleMessage e s w reset_round = handle_reset_round s w"
| "handleMessage e s w close_reveal = handle_close_reveal s w"
| "handleMessage e s w other_type = Done s []"
| "handleMessage e s w null_message = Thrown"

section \<open>The connection handlers\<close>

text \<open>
  \<^verbatim>\<open>wss.on('connection')\<close> initialises the timestamp list; \<^verbatim>\<open>ws.on('message')\<close> runs the
  rate limiter at clock reading \<open>now\<close>, parses the data (\<open>None\<close>: \<^verbatim>\<open>JSON.parse\<close> threw)
  and hands the message over, answering a throw with an error message;
  \<^verbatim>\<open>ws.on('close')\<close> removes the player. None of them closes a connection.
\<close>

definition on_connection :: "server \<Rightarrow> ws \<Rightarrow> server" where
  "on_connection s w = s\<lparr> messageTimestamps := (messageTimestamps s)(w := Some []) \<rparr>"

definition on_message :: "env \<Rightarrow> int \<Rightarrow> server \<Rightarrow> ws \<Rightarrow> message option \<Rightarrow> outcome" where
  "on_message e now s w parsed =
     (case checkRateLimit now (messageTimestamps s w) of
        (ok, ts) \<Rightarrow>
          (let s1 = s\<lparr> messageTimestamps := (messageTimestamps s)(w := Some ts) \<rparr>
           in if \<not> ok then
                Done s1 [(w, error_msg ''Rate limit exceeded. Please slow down.'')]
              else
                (case parsed of
                   None \<Rightarrow> Done s1 [(w, error_msg ''Invalid message format'')]
                 | Some m \<Rightarrow>
                     (case handleMessage e s1 w m of
                        Thrown \<Rightarrow> Done s1 [(w, error_msg ''Invalid message format'')]
                      | res \<Rightarrow> res))))"

definition on_close :: "server \<Rightarrow> ws \<Rightarrow> server \<times> sends" where
  "on_close s w =
     (case players s w of
        None \<Rightarrow> (s, [])
      | Some a \<Rightarrow>
          (let p = heap s a; code = p_roomCode p
           in case map_of (rooms s) code of
                None \<Rightarrow> (s\<lparr> players := (players s)(w := None) \<rparr>, [])
              | Some r \<Rightarrow>
                  (let ps = map_delete w (r_players r);
                       handover = (isHost p \<and> length ps > 0);
                       h' = (if handover
                             then (heap s)(snd (hd ps) := (heap s (snd (hd ps)))\<lparr>isHost := True\<rparr>)
                             else heap s);
                       out1 = (if handover then [(fst (hd ps), became_host)] else []);
                       s1 = s\<lparr> heap := h',
                               rooms := map_set code (r\<lparr>r_players := ps\<rparr>) (rooms s) \<rparr>
                   in if length ps = 0 then
                        (s1\<lparr> rooms := map_delete code (rooms s1),
                             players := (players s)(w := None) \<rparr>, out1)
                      else
                        (s1\<lparr> players := (players s)(w := None) \<rparr>,
                         out1 @ broadcastToRoom s1 code
                                  (player_left (p_id p) (getRoomState s1 code False)) None))))"

text \<open>
  The server at start: no room, no player, no session. The cells of the store that no
  player object occupies yet hold a placeholder, which nothing reads. \<open>readyState\<close> is
  set by the network, not by the handlers; at start every connection counts as open (1).
\<close>

definition initial :: server where
  "initial =
     \<lparr> rooms = [], players = Map.empty, sessionTokens = Map.empty,
       heap = (\<lambda>a. \<lparr> p_id = [], p_name = [], isHost = False, selectedCard = JNull,
                      p_roomCode = [], sessionToken = [] \<rparr>),
       next_addr = 0, readyState = (\<lambda>w. 1), messageTimestamps = (\<lambda>w. None) \<rparr>"

section \<open>Runs of the server\<close>

text \<open>
  What happens to the server: a connection is opened, a connection receives data at
  clock reading \<open>now\<close> (with the environment of the handler's call and the parsed
  message), a connection is closed. \<open>step\<close> is the handler of the event; it gives no
  result when the handler does not return. \<open>run_steps\<close> handles a list of events in
  order and gives the state reached and, for each event handled, what was sent; it stops
  at an event whose handler does not return.
\<close>

datatype event = Connect ws | Message env int ws "message option" | Close ws

fun step :: "server \<Rightarrow> event \<Rightarrow> (server \<times> sends) option" where
  "step s (Connect w) = Some (on_connection s w, [])"
| "step s (Message e now w parsed) =
     (case on_message e now s w parsed of
        Done s' out \<Rightarrow> Some (s', out)
      | _ \<Rightarrow> None)"
| "step s (Close w) = Some (on_close s w)"

fun run_steps :: "server \<Rightarrow> event list \<Rightarrow> server \<times> sends list" where
  "run_steps s [] = (s, [])"
| "run_steps s (ev # evs) =
     (case step s ev of
        None \<Rightarrow> (s, [])
      | Some (s1, o1) \<Rightarrow> (case run_steps s1 evs of (s2, os) \<Rightarrow> (s2, o1 # os)))"

text \<open>
  \<^verbatim>\<open>reveal_cards\<close> is called for the room with code \<open>c\<close>: the event is a
  \<^verbatim>\<open>reveal_cards\<close> message that passes the rate limiter and comes from a connection whose
  player is a host with room code \<open>c\<close>. \<open>reveal_called\<close>: some event of the run is such
  a call, in the state the run has reached there.
\<close>

fun is_reveal :: "server \<Rightarrow> event \<Rightarrow> jsstring \<Rightarrow> bool" where
  "is_reveal s (Message e now w (Some reveal_cards)) c =
     (fst (checkRateLimit now (messageTimestamps s w))
      \<and> (case players s w of
            None \<Rightarrow> False
          | Some a \<Rightarrow> isHost (heap s a) \<and> p_roomCode (heap s a) = c))"
| "is_reveal s ev c = False"

fun reveal_called :: "server \<Rightarrow> event list \<Rightarrow> jsstring \<Rightarrow> bool" where
  "reveal_called s [] c = False"
| "reveal_called s (ev # evs) c =
     (is_reveal s ev c
      \<or> (case step s ev of
            None \<Rightarrow> False
          | Some (s1, o1) \<Rightarrow> reveal_called s1 evs c))"

section \<open>Observations\<close>

text \<open>
  The \<^verbatim>\<open>roomState\<close> and \<^verbatim>\<open>revealOrder\<close> fields of an outgoing message, the cards a
  snapshot shows, a message whose snapshot (if it has one) is the snapshot without vote
  visibility of a room of the state \<open>s\<close> (\<open>faithful\<close>), the host flags of the rooms,
  and a run of the message handler over several messages (each with the environment of
  its own call), which stops at a call that throws or does not return.
\<close>

fun roomState_of :: "server_msg \<Rightarrow> snapshot option" where
  "roomState_of (error_msg t) = None"
| "roomState_of (room_created c i t sn) = sn"
| "roomState_of (joined_room c i t sn) = sn"
| "roomState_of (player_joined i n h sn) = sn"
| "roomState_of (round_started sn) = sn"
| "roomState_of (player_selected i sn) = sn"
| "roomState_of (cards_revealed ro sn) = sn"
| "roomState_of (round_reset sn) = sn"
| "roomState_of reveal_closed = None"
| "roomState_of became_host = None"
| "roomState_of (player_left i sn) = sn"

fun revealOrder_of :: "server_msg \<Rightarrow> (jsstring \<times> jsstring \<times> jsval) list" where
  "revealOrder_of (cards_revealed ro sn) = ro"
| "revealOrder_of m = []"

definition cards_hidden :: "snapshot \<Rightarrow> bool" where
  "cards_hidden snap \<longleftrightarrow> list_all (\<lambda>v. v_card v = JNull) (playersList snap)"

definition faithful :: "server \<Rightarrow> server_msg \<Rightarrow> bool" where
  "faithful s msg \<longleftrightarrow>
     (case roomState_of msg of
        None \<Rightarrow> True
      | Some snap \<Rightarrow> getRoomState s (roomCode snap) False = Some snap)"

definition room_state_of :: "server \<Rightarrow> jsstring \<Rightarrow> room_state option" where
  "room_state_of s code = map_option r_state (map_of (rooms s) code)"

definition host_flags :: "server \<Rightarrow> (jsstring \<times> (ws \<times> bool) list) list" where
  "host_flags s =
     map (\<lambda>(code, r). (code, map (\<lambda>(w, a). (w, isHost (heap s a))) (r_players r))) (rooms s)"

definition room_flags :: "server \<Rightarrow> room \<Rightarrow> (ws \<times> bool) list" where
  "room_flags s r = map (\<lambda>(w, a). (w, isHost (heap s a))) (r_players r)"

fun run_messages :: "server \<Rightarrow> (env \<times> ws \<times> message) list \<Rightarrow> server option" where
  "run_messages s [] = Some s"
| "run_messages s ((e, w, m) # rest) =
     (case handleMessage e s w m of
        Done s' out \<Rightarrow> run_messages s' rest
      | _ \<Rightarrow> None)"

section \<open>Example values\<close>

text \<open>
  A session of two connections, 1 (Ann) and 2 (Bob): the environments of their
  \<^verbatim>\<open>create_room\<close> and \<^verbatim>\<open>join_room\<close> calls (four random values 0 give the code AAAA),
  the server state in which Ann is alone in the room AAAA she has created, and the one in
  which Ann hosts room AAAA with Bob, the room is in state \<open>st\<close> and Bob's selected
  card is \<open>c\<close>.
\<close>

definition ascii_upper :: "jsstring \<Rightarrow> jsstring" where
  "ascii_upper = map (\<lambda>c. if 97 \<le> c \<and> c \<le> 122 then c - 32 else c)"

definition env_ann :: env where
  "env_ann = \<lparr> now_room = 1000, now_session = 1000, uuid = str ''u1'', token = str ''t1'',
               randoms = [0, 0, 0, 0], toUpperCase = ascii_upper \<rparr>"

definition env_bob :: env where
  "env_bob = \<lparr> now_room = 2000, now_session = 2000, uuid = str ''u2'', token = str ''t2'',
               randoms = [], toUpperCase = ascii_upper \<rparr>"

definition ann_alone :: server where
  "ann_alone =
     \<lparr> rooms = [(str ''AAAA'',
                  \<lparr> r_state = waiting, r_players = [(1, 0)], r_createdAt = 1000 \<rparr>)],
       players = [1 \<mapsto> 0],
       sessionTokens = [str ''t1'' \<mapsto> new_session env_ann (str ''Ann'') (str ''AAAA'')],
       heap = (heap initial)(0 := new_player env_ann (str ''Ann'') True (str ''AAAA'')),
       next_addr = 1, readyState = (\<lambda>w. 1), messageTimestamps = (\<lambda>w. None) \<rparr>"

definition two_players :: "room_state \<Rightarrow> jsval \<Rightarrow> server" where
  "two_players st c =
     \<lparr> rooms = [(str ''AAAA'',
                  \<lparr> r_state = st, r_players = [(1, 0), (2, 1)], r_createdAt = 1000 \<rparr>)],
       players = [1 \<mapsto> 0, 2 \<mapsto> 1],
       sessionTokens =
         [str ''t1'' \<mapsto> new_session env_ann (str ''Ann'') (str ''AAAA''),
          str ''t2'' \<mapsto> new_session env_bob (str ''Bob'') (str ''AAAA'')],
       heap = (heap initial)
         (0 := new_player env_ann (str ''Ann'') True (str ''AAAA''),
          1 := (new_player env_bob (str ''Bob'') False (str ''AAAA''))\<lparr>selectedCard := c\<rparr>),
       next_addr = 2, readyState = (\<lambda>w. 1), messageTimestamps = (\<lambda>w. None) \<rparr>"

text \<open>The snapshot of room AAAA in that state while the room is voting.\<close>

definition voting_snapshot :: "jsval \<Rightarrow> snapshot" where
  "voting_snapshot c =
     \<lparr> roomCode = str ''AAAA'', state = voting,
       playersList =
         [\<lparr> v_id = str ''u1'', v_name = str ''Ann'', v_isHost = True,
            hasSelected = False, v_card = JNull \<rparr>,
          \<lparr> v_id = str ''u2'', v_name = str ''Bob'', v_isHost = False,
            hasSelected = (c \<noteq> JNull), v_card = JNull \<rparr>],
       cardValues = CARD_VALUES \<rparr>"

section \<open>Evaluation of the example values\<close>

lemmas eval_defs =
  handle_create_room_def handle_join_room_def handle_start_round_def handle_select_card_def
  handle_reveal_cards_def handle_reset_round_def handle_close_reveal_def
  sanitizeName_def trim_def is_space_def remove_dangerous_def dangerous_def MAX_NAME_LENGTH_def
  draw_code_def pick_char_def chars_def str_def Let_def initial_def
  MAX_ROOMS_def MAX_PLAYERS_PER_ROOM_def env_ann_def env_bob_def
  two_players_def isValidRoomCode_def ascii_upper_def is_code_unit_def
  new_player_def new_session_def getRoomState_def broadcastToRoom_def view_of_def
  isValidCard_def CARD_VALUES_def clear_cards_def voting_snapshot_def ann_alone_def

text \<open>
  The example state is one the server reaches: Ann creates the room, Bob joins it with the
  code in lower case, Ann starts a round and Bob selects the card 5.
\<close>

lemma two_players_reached:
  "run_messages initial
     [(env_ann, 1, create_room (JStr (str ''Ann''))),
      (env_bob, 2, join_room (JStr (str ''Bob'')) (JStr (str ''aaaa'')))]
   = Some (two_players waiting JNull)"
  by (simp add: eval_defs fun_upd_twist)

lemma two_players_voted:
  "run_messages (two_players waiting JNull)
     [(env_ann, 1, start_round), (env_bob, 2, select_card (JStr (str ''5'')))]
   = Some (two_players voting (JStr (str ''5'')))"
  by (simp add: eval_defs fun_upd_twist)

section \<open>Maps and broadcast\<close>

lemma map_of_map_set:
  "map_of (map_set k v kvs) k' = (if k' = k then Some v else map_of kvs k')"
  by (induction kvs) auto

lemma in_broadcast: "(x, msg) \<in> set (broadcastToRoom s c m ex) \<Longrightarrow> msg = m"
  by (auto simp: broadcastToRoom_def split: option.splits)

section \<open>The rate limiter\<close>

text \<open>
  The message handler touches no timestamp list and never sends the rate-limit error, so
  on a connection whose readings pairwise differ by less than the window the list only
  grows, by one for each message handed on, until it holds 20.
\<close>

lemma in_window_eq: "in_window now = (\<lambda>t. now - t < 5000)"
  by (rule ext) (simp add: in_window_def RATE_LIMIT_WINDOW_MS_def)

lemma frame_handleMessage:
  "handleMessage e s w m = Done s' out \<Longrightarrow> messageTimestamps s' = messageTimestamps s"
proof (cases m)
  case (create_room nm)
  then show "handleMessage e s w m = Done s' out \<Longrightarrow> ?thesis"
    by (auto simp: handle_create_room_def Let_def simp del: generateRoomCode.simps
        split: if_splits option.splits)
next
  case (join_room nm rc)
  then show "handleMessage e s w m = Done s' out \<Longrightarrow> ?thesis"
    by (cases rc) (auto simp: handle_join_room_def Let_def split: if_splits option.splits)
qed (auto simp: handle_start_round_def handle_select_card_def handle_reveal_cards_def
      handle_reset_round_def handle_close_reveal_def Let_def split: if_splits option.splits)

lemma no_rate_error_handleMessage:
  "handleMessage e s w m = Done s' out \<Longrightarrow>
     (x, error_msg ''Rate limit exceeded. Please slow down.'') \<notin> set out"
proof (cases m)
  case (create_room nm)
  then show "handleMessage e s w m = Done s' out \<Longrightarrow> ?thesis"
    by (auto simp: handle_create_room_def Let_def simp del: generateRoomCode.simps
        split: if_splits option.splits)
next
  case (join_room nm rc)
  then show "handleMessage e s w m = Done s' out \<Longrightarrow> ?thesis"
    by (cases rc) (auto simp: handle_join_room_def Let_def split: if_splits option.splits
        dest!: in_broadcast)
qed (auto simp: handle_start_round_def handle_select_card_def handle_reveal_cards_def
      handle_reset_round_def handle_close_reveal_def Let_def split: if_splits option.splits
      dest!: in_broadcast)

lemma on_message_unfold:
  "on_message e now s w parsed =
     (let ts = filter (\<lambda>t. now - t < 5000)
                 (case messageTimestamps s w of None \<Rightarrow> [] | Some l \<Rightarrow> l)
      in if length ts < 20 then
           (let s1 = s\<lparr> messageTimestamps := (messageTimestamps s)(w := Some (ts @ [now])) \<rparr>
            in case parsed of
                 None \<Rightarrow> Done s1 [(w, error_msg ''Invalid message format'')]
               | Some m \<Rightarrow>
                   (case handleMessage e s1 w m of
                      Thrown \<Rightarrow> Done s1 [(w, error_msg ''Invalid message format'')]
                    | res \<Rightarrow> res))
         else Done (s\<lparr> messageTimestamps := (messageTimestamps s)(w := Some ts) \<rparr>)
                [(w, error_msg ''Rate limit exceeded. Please slow down.'')])"
  by (simp add: on_message_def checkRateLimit_def Let_def in_window_eq
      RATE_LIMIT_MAX_MESSAGES_def not_le)

lemma on_message_accepted:
  assumes "messageTimestamps s w = Some ts" and "\<forall>t\<in>set ts. now - t < 5000"
    and "length ts < 20" and "on_message e now s w parsed = Done s' out"
  shows "messageTimestamps s' w = Some (ts @ [now])
         \<and> (w, error_msg ''Rate limit exceeded. Please slow down.'') \<notin> set out"
proof -
  let ?s1 = "s\<lparr> messageTimestamps := (messageTimestamps s)(w := Some (ts @ [now])) \<rparr>"
  have keep: "filter (\<lambda>t. now - t < 5000) ts = ts" using assms(2) by (induction ts) auto
  show ?thesis
  proof (cases parsed)
    case None
    with assms keep show ?thesis by (auto simp: on_message_unfold)
  next
    case (Some m)
    show ?thesis
    proof (cases "handleMessage e ?s1 w m")
      case (Done s2 o2)
      with Some assms keep have eq: "s' = s2" "out = o2" by (auto simp: on_message_unfold)
      from frame_handleMessage [OF Done] no_rate_error_handleMessage [OF Done] eq
      show ?thesis by simp
    next
      case Thrown
      with Some assms keep show ?thesis by (auto simp: on_message_unfold)
    next
      case NoReturn
      with Some assms keep show ?thesis by (auto simp: on_message_unfold)
    qed
  qed
qed

lemma on_message_rejected:
  assumes "messageTimestamps s w = Some ts" and "\<forall>t\<in>set ts. now - t < 5000"
    and "\<not> length ts < 20"
  shows "on_message e now s w parsed =
           Done s [(w, error_msg ''Rate limit exceeded. Please slow down.'')]"
proof -
  have keep: "filter (\<lambda>t. now - t < 5000) ts = ts" using assms(2) by (induction ts) auto
  have "s\<lparr> messageTimestamps := (messageTimestamps s)(w := Some ts) \<rparr> = s"
    using assms(1) by (simp add: fun_upd_idem)
  with assms keep show ?thesis by (simp add: on_message_unfold)
qed

lemma run_window:
  assumes "messageTimestamps s w = Some ts"
    and "\<forall>a\<in>set ts \<union> set (map (fst \<circ> snd) xs). \<forall>b\<in>set ts \<union> set (map (fst \<circ> snd) xs). b - a < 5000"
    and "run_steps s (map (\<lambda>(e, now, p). Message e now w p) xs) = (s', os)"
    and "length os = length xs"
  shows "map (\<lambda>out. (w, error_msg ''Rate limit exceeded. Please slow down.'') \<in> set out) os
             = map (\<lambda>i. \<not> length ts + i < 20) [0..<length xs]
         \<and> (\<forall>i<length xs. \<not> length ts + i < 20 \<longrightarrow>
               os ! i = [(w, error_msg ''Rate limit exceeded. Please slow down.'')])
         \<and> messageTimestamps s' w = Some (ts @ map (fst \<circ> snd) (take (20 - length ts) xs))"
  using assms
proof (induction xs arbitrary: s ts os)
  case Nil
  then show ?case by simp
next
  case (Cons x xs)
  obtain e now p where x: "x = (e, now, p)" by (cases x) auto
  from Cons.prems(3,4) x obtain s1 o1 os1 where
    st: "on_message e now s w p = Done s1 o1"
    and rest: "run_steps s1 (map (\<lambda>(e, now, p). Message e now w p) xs) = (s', os1)"
    and os: "os = o1 # os1"
    by (auto split: outcome.splits prod.splits)
  from Cons.prems(4) os have len: "length os1 = length xs" by simp
  have inw: "\<forall>t\<in>set ts. now - t < 5000" using Cons.prems(2) x by auto
  show ?case
  proof (cases "length ts < 20")
    case True
    from on_message_accepted [OF Cons.prems(1) inw True st]
    have s1: "messageTimestamps s1 w = Some (ts @ [now])"
      and norl: "(w, error_msg ''Rate limit exceeded. Please slow down.'') \<notin> set o1" by auto
    have win: "\<forall>a\<in>set (ts @ [now]) \<union> set (map (fst \<circ> snd) xs).
               \<forall>b\<in>set (ts @ [now]) \<union> set (map (fst \<circ> snd) xs). b - a < 5000"
      using Cons.prems(2) x by auto
    note IH = Cons.IH [OF s1 win rest len]
    have d: "20 - length ts = Suc (20 - length (ts @ [now]))" using True by simp
    have a: "map (\<lambda>out. (w, error_msg ''Rate limit exceeded. Please slow down.'') \<in> set out) os
             = map (\<lambda>i. \<not> length ts + i < 20) [0..<length (x # xs)]"
      using IH True os norl by (simp add: map_upt_Suc del: upt_Suc)
    have b: "\<forall>i<length (x # xs). \<not> length ts + i < 20 \<longrightarrow>
               os ! i = [(w, error_msg ''Rate limit exceeded. Please slow down.'')]"
    proof (intro allI impI)
      fix i assume i: "i < length (x # xs)" "\<not> length ts + i < 20"
      with True obtain j where j: "i = Suc j" by (cases i) auto
      with i IH os show "os ! i = [(w, error_msg ''Rate limit exceeded. Please slow down.'')]"
        by simp
    qed
    have c: "messageTimestamps s' w = Some (ts @ map (fst \<circ> snd) (take (20 - length ts) (x # xs)))"
      using IH x by (simp add: d)
    from a b c show ?thesis by blast
  next
    case False
    from on_message_rejected [OF Cons.prems(1) inw False, of e p] st
    have s1: "s1 = s" "o1 = [(w, error_msg ''Rate limit exceeded. Please slow down.'')]" by auto
    have win: "\<forall>a\<in>set ts \<union> set (map (fst \<circ> snd) xs).
               \<forall>b\<in>set ts \<union> set (map (fst \<circ> snd) xs). b - a < 5000"
      using Cons.prems(2) by auto
    note IH = Cons.IH [OF Cons.prems(1) win rest [unfolded s1] len]
    have a: "map (\<lambda>out. (w, error_msg ''Rate limit exceeded. Please slow down.'') \<in> set out) os
             = map (\<lambda>i. \<not> length ts + i < 20) [0..<length (x # xs)]"
      using IH False os s1 by (simp add: map_upt_Suc del: upt_Suc)
    have b: "\<forall>i<length (x # xs). \<not> length ts + i < 20 \<longrightarrow>
               os ! i = [(w, error_msg ''Rate limit exceeded. Please slow down.'')]"
    proof (intro allI impI)
      fix i assume i: "i < length (x # xs)" "\<not> length ts + i < 20"
      show "os ! i = [(w, error_msg ''Rate limit exceeded. Please slow down.'')]"
      proof (cases i)
        case 0
        with os s1 show ?thesis by simp
      next
        case (Suc j)
        with i IH os False show ?thesis by simp
      qed
    qed
    have c: "messageTimestamps s' w = Some (ts @ map (fst \<circ> snd) (take (20 - length ts) (x # xs)))"
      using IH False by simp
    from a b c show ?thesis by blast
  qed
qed

lemma flags_21: "map (\<lambda>i. \<not> (0::nat) + i < 20) [0..<21] = replicate 20 False @ [True]"
  by code_simp

text \<open>
  C5. \<^verbatim>\<open>checkRateLimit\<close> accepts exactly when fewer than 20 of the recorded timestamps
  \<open>t\<close> are inside the trailing window, \<open>now - t < 5000\<close>. The \<^verbatim>\<open>message\<close> handler of
  a connection does then the following: if fewer than 20 are inside, it records the old
  ones that are inside followed by \<open>now\<close> and hands the message to \<^verbatim>\<open>handleMessage\<close>
  (answering unparseable data or a throw with "Invalid message format"); otherwise it
  records the old ones that are inside, sends the sender the rate-limit error and nothing
  else, and changes nothing else. A connection whose list is empty and which receives 21
  messages, each handled to its end, at readings that pairwise differ by less than
  5000 ms: the rate-limit error is sent on the twenty-first and on no other, the
  twenty-first gets nothing but that error, and the list then holds the first twenty
  readings. No handler of the model closes a connection.
\<close>

theorem rate_limiter_window:
  "(fst (checkRateLimit now stamps) \<longleftrightarrow>
      length (filter (\<lambda>t. now - t < 5000) (case stamps of None \<Rightarrow> [] | Some ts \<Rightarrow> ts)) < 20)
   \<and> on_message e now s w parsed =
       (let ts = filter (\<lambda>t. now - t < 5000)
                   (case messageTimestamps s w of None \<Rightarrow> [] | Some l \<Rightarrow> l)
        in if length ts < 20 then
             (let s1 = s\<lparr> messageTimestamps := (messageTimestamps s)(w := Some (ts @ [now])) \<rparr>
              in case parsed of
                   None \<Rightarrow> Done s1 [(w, error_msg ''Invalid message format'')]
                 | Some m \<Rightarrow>
                     (case handleMessage e s1 w m of
                        Thrown \<Rightarrow> Done s1 [(w, error_msg ''Invalid message format'')]
                      | res \<Rightarrow> res))
           else Done (s\<lparr> messageTimestamps := (messageTimestamps s)(w := Some ts) \<rparr>)
                  [(w, error_msg ''Rate limit exceeded. Please slow down.'')])
   \<and> (messageTimestamps s w = Some [] \<longrightarrow> length xs = 21 \<longrightarrow>
        (\<forall>a\<in>set (map (fst \<circ> snd) xs). \<forall>b\<in>set (map (fst \<circ> snd) xs). b - a < 5000) \<longrightarrow>
        run_steps s (map (\<lambda>(e, now, p). Message e now w p) xs) = (s', os) \<longrightarrow>
        length os = 21 \<longrightarrow>
          map (\<lambda>out. (w, error_msg ''Rate limit exceeded. Please slow down.'') \<in> set out) os
            = replicate 20 False @ [True]
          \<and> os ! 20 = [(w, error_msg ''Rate limit exceeded. Please slow down.'')]
          \<and> messageTimestamps s' w = Some (map (fst \<circ> snd) (take 20 xs)))"
proof (intro conjI impI)
  show "fst (checkRateLimit now stamps) \<longleftrightarrow>
      length (filter (\<lambda>t. now - t < 5000) (case stamps of None \<Rightarrow> [] | Some ts \<Rightarrow> ts)) < 20"
    by (auto simp: checkRateLimit_def Let_def in_window_eq RATE_LIMIT_MAX_MESSAGES_def)
next
  show "on_message e now s w parsed =
       (let ts = filter (\<lambda>t. now - t < 5000)
                   (case messageTimestamps s w of None \<Rightarrow> [] | Some l \<Rightarrow> l)
        in if length ts < 20 then
             (let s1 = s\<lparr> messageTimestamps := (messageTimestamps s)(w := Some (ts @ [now])) \<rparr>
              in case parsed of
                   None \<Rightarrow> Done s1 [(w, error_msg ''Invalid message format'')]
                 | Some m \<Rightarrow>
                     (case handleMessage e s1 w m of
                        Thrown \<Rightarrow> Done s1 [(w, error_msg ''Invalid message format'')]
                      | res \<Rightarrow> res))
           else Done (s\<lparr> messageTimestamps := (messageTimestamps s)(w := Some ts) \<rparr>)
                  [(w, error_msg ''Rate limit exceeded. Please slow down.'')])"
    by (rule on_message_unfold)
next
  assume h: "messageTimestamps s w = Some []" "length xs = 21"
    "\<forall>a\<in>set (map (fst \<circ> snd) xs). \<forall>b\<in>set (map (fst \<circ> snd) xs). b - a < 5000"
    "run_steps s (map (\<lambda>(e, now, p). Message e now w p) xs) = (s', os)" "length os = 21"
  have win: "\<forall>a\<in>set [] \<union> set (map (fst \<circ> snd) xs).
             \<forall>b\<in>set [] \<union> set (map (fst \<circ> snd) xs). b - a < 5000"
    using h(3) by simp
  have len: "length os = length xs" using h by simp
  note R = run_window [OF h(1) win h(4) len]
  from R h(2) flags_21
  show "map (\<lambda>out. (w, error_msg ''Rate limit exceeded. Please slow down.'') \<in> set out) os
            = replicate 20 False @ [True]" by simp
  from R h(2) show "os ! 20 = [(w, error_msg ''Rate limit exceeded. Please slow down.'')]"
    by simp
  from R h(2) show "messageTimestamps s' w = Some (map (fst \<circ> snd) (take 20 xs))" by simp
qed

lemma run_other_complete:
  "length (snd (run_steps s (map (\<lambda>(e, now, p). Message e now w p)
                              (map (\<lambda>now. (e0, now, Some other_type)) nows)))) = length nows"
proof (induction nows arbitrary: s)
  case Nil
  show ?case by simp
next
  case (Cons now nows)
  have "\<exists>s1 o1. on_message e0 now s w (Some other_type) = Done s1 o1"
    by (simp add: on_message_unfold Let_def)
  then obtain s1 o1 where st: "on_message e0 now s w (Some other_type) = Done s1 o1"
    by blast
  obtain s2 os where r: "run_steps s1 (map (\<lambda>(e, now, p). Message e now w p)
                              (map (\<lambda>now. (e0, now, Some other_type)) nows)) = (s2, os)"
    by (cases "run_steps s1 (map (\<lambda>(e, now, p). Message e now w p)
                              (map (\<lambda>now. (e0, now, Some other_type)) nows))") auto
  from Cons [of s1] r have "length os = length nows" by simp
  with st r show ?case by simp
qed

theorem rate_limiter_window_witness:
  "messageTimestamps (on_connection initial 1) 1 = Some []
   \<and> length (map (\<lambda>now. (env_ann, now, Some other_type)) (map (\<lambda>i. 1000 + 10 * int i) [0..<21])) = 21
   \<and> map (\<lambda>out. (1, error_msg ''Rate limit exceeded. Please slow down.'') \<in> set out)
         (snd (run_steps (on_connection initial 1)
                 (map (\<lambda>(e, now, p). Message e now 1 p)
                    (map (\<lambda>now. (env_ann, now, Some other_type))
                       (map (\<lambda>i. 1000 + 10 * int i) [0..<21])))))
       = replicate 20 False @ [True]
   \<and> on_message env_ann 1200
        (initial\<lparr> messageTimestamps := (\<lambda>w. Some (replicate 20 1000)) \<rparr>) 1 (Some start_round)
      = Done (initial\<lparr> messageTimestamps := (\<lambda>w. Some (replicate 20 1000)) \<rparr>)
          [(1, error_msg ''Rate limit exceeded. Please slow down.'')]
   \<and> on_message env_ann 1200
        (initial\<lparr> messageTimestamps := (\<lambda>w. Some (replicate 19 1000)) \<rparr>) 1 (Some other_type)
      = Done (initial\<lparr> messageTimestamps := (\<lambda>w. Some (replicate 19 1000))(1 := Some (replicate 19 1000 @ [1200])) \<rparr>) []"
proof -
  let ?nows = "map (\<lambda>i. 1000 + 10 * int i) [0..<21]"
  let ?xs = "map (\<lambda>now. (env_ann, now, Some other_type)) ?nows"
  let ?s = "on_connection initial 1"
  let ?run = "run_steps ?s (map (\<lambda>(e, now, p). Message e now 1 p) ?xs)"
  let ?t = "initial\<lparr> messageTimestamps := (\<lambda>w. Some (replicate 20 1000)) \<rparr>"
  let ?u = "initial\<lparr> messageTimestamps := (\<lambda>w. Some (replicate 19 1000)) \<rparr>"
  have st: "messageTimestamps ?s 1 = Some []" by (simp add: on_connection_def)
  have len: "length ?xs = 21" by simp
  have win: "\<forall>a\<in>set (map (fst \<circ> snd) ?xs). \<forall>b\<in>set (map (fst \<circ> snd) ?xs). b - a < 5000"
    by auto
  have run: "?run = (fst ?run, snd ?run)" by simp
  have all: "length (snd ?run) = 21" using run_other_complete [of ?s 1 env_ann ?nows] by simp
  from rate_limiter_window [of 0 None env_ann ?s 1 None ?xs "fst ?run" "snd ?run"]
       st len win run all
  have a: "map (\<lambda>out. (1, error_msg ''Rate limit exceeded. Please slow down.'') \<in> set out) (snd ?run)
            = replicate 20 False @ [True]" by blast
  have b: "on_message env_ann 1200 ?t 1 (Some start_round)
      = Done ?t [(1, error_msg ''Rate limit exceeded. Please slow down.'')]"
    using rate_limiter_window [of 1200 None env_ann ?t 1 "Some start_round" "[]" ?t "[]"]
    by (simp add: fun_upd_idem Let_def)
  have c: "on_message env_ann 1200 ?u 1 (Some other_type)
      = Done (initial\<lparr> messageTimestamps := (\<lambda>w. Some (replicate 19 1000))(1 := Some (replicate 19 1000 @ [1200])) \<rparr>) []"
    using rate_limiter_window [of 1200 None env_ann ?u 1 "Some other_type" "[]" ?u "[]"]
    by (simp add: Let_def)
  from st len a b c show ?thesis by blast
qed

text \<open>
  C10. When \<^verbatim>\<open>checkRateLimit\<close> rejects, the list it leaves is the old list without the
  entries that have left the window: the reading of the rejected message is not appended.
  Whether a later message is accepted therefore depends only on how many of the recorded
  (accepted) timestamps are still inside its own window: it is accepted as soon as there
  are fewer than 20.
\<close>

theorem rejected_message_not_recorded:
  "checkRateLimit now stamps = (False, ts') \<Longrightarrow>
     ts' = filter (\<lambda>t. now - t < 5000) (case stamps of None \<Rightarrow> [] | Some ts \<Rightarrow> ts)
     \<and> length ts' \<le> length (case stamps of None \<Rightarrow> [] | Some ts \<Rightarrow> ts)
     \<and> (\<forall>now'. fst (checkRateLimit now' (Some ts')) \<longleftrightarrow>
                 length (filter (\<lambda>t. now' - t < 5000) ts') < 20)"
  by (auto simp: checkRateLimit_def Let_def in_window_eq RATE_LIMIT_MAX_MESSAGES_def
        split: if_splits)

theorem rejected_message_not_recorded_witness:
  "checkRateLimit 1200 (Some (replicate 20 1000)) = (False, replicate 20 1000)
   \<and> fst (checkRateLimit 6000 (Some (replicate 20 1000)))"
proof -
  have step: "checkRateLimit 1200 (Some (replicate 20 1000)) = (False, replicate 20 1000)"
    by (simp add: checkRateLimit_def in_window_eq RATE_LIMIT_MAX_MESSAGES_def)
  from rejected_message_not_recorded [OF step] step show ?thesis by simp
qed

section \<open>Names\<close>

lemma tag_end_set: "tag_end cs = Some r \<Longrightarrow> set r \<subseteq> set cs"
  by (induction cs) (auto split: if_splits)

lemma tag_end_None: "tag_end cs = None \<longleftrightarrow> 62 \<notin> set cs"
  by (induction cs) auto

lemma set_remove_tags: "set (remove_tags s) \<subseteq> set s"
proof (induction s rule: remove_tags.induct)
  case 1
  then show ?case by simp
next
  case (2 c cs)
  show ?case
  proof (cases "c = 60")
    case False
    with "2.IH" show ?thesis by auto
  next
    case True
    show ?thesis
    proof (cases "tag_end cs")
      case None
      with True "2.IH" show ?thesis by auto
    next
      case (Some rest)
      with True "2.IH" have "set (remove_tags rest) \<subseteq> set rest" by simp
      with tag_end_set [OF Some] True Some show ?thesis by auto
    qed
  qed
qed

text \<open>
  After the replacement no tag-like substring is left: a \<^verbatim>\<open><\<close> that remains is
  followed by no \<^verbatim>\<open>>\<close>.
\<close>

lemma remove_tags_no_tag:
  "remove_tags s = u @ 60 # v \<Longrightarrow> 62 \<notin> set v"
proof (induction s arbitrary: u rule: remove_tags.induct)
  case 1
  then show ?case by simp
next
  case (2 c cs)
  show ?case
  proof (cases "c = 60")
    case False
    with "2.prems" obtain u' where "u = c # u'" "remove_tags cs = u' @ 60 # v"
      by (cases u) auto
    with False "2.IH" show ?thesis by blast
  next
    case True
    show ?thesis
    proof (cases "tag_end cs")
      case (Some rest)
      with True "2.prems" have "remove_tags rest = u @ 60 # v" by simp
      with True Some "2.IH" show ?thesis by blast
    next
      case None
      then have no: "62 \<notin> set cs" by (simp add: tag_end_None)
      from None True "2.prems" have eq: "60 # remove_tags cs = u @ 60 # v" by simp
      show ?thesis
      proof (cases u)
        case Nil
        with eq have "v = remove_tags cs" by simp
        with no set_remove_tags [of cs] show ?thesis by auto
      next
        case (Cons x u')
        with eq have "remove_tags cs = u' @ 60 # v" by simp
        with True None "2.IH" show ?thesis by blast
      qed
    qed
  qed
qed

lemma sanitized_clean:
  "set (take n (remove_dangerous t)) \<inter> set dangerous = {}"
  by (auto simp: remove_dangerous_def dest!: in_set_takeD)

lemma trim_Nil: "trim [] = []" by (simp add: trim_def)

lemma trim_decomp:
  "\<exists>l r. s = l @ trim s @ r \<and> list_all is_space l \<and> list_all is_space r"
proof -
  let ?d = "dropWhile is_space s"
  have 1: "s = takeWhile is_space s @ ?d" by simp
  have "rev (takeWhile is_space (rev ?d) @ dropWhile is_space (rev ?d)) = rev (rev ?d)"
    by (simp only: takeWhile_dropWhile_id)
  then have "rev (dropWhile is_space (rev ?d)) @ rev (takeWhile is_space (rev ?d)) = ?d"
    by (simp only: rev_append rev_rev_ident)
  then have 2: "?d = trim s @ rev (takeWhile is_space (rev ?d))"
    by (simp only: trim_def)
  have 3: "list_all is_space (takeWhile is_space s)"
    by (simp add: list_all_iff) (meson set_takeWhileD)
  have 4: "list_all is_space (rev (takeWhile is_space (rev ?d)))"
    by (simp add: list_all_iff) (meson set_takeWhileD)
  from 1 2 have "s = takeWhile is_space s @ trim s @ rev (takeWhile is_space (rev ?d))"
    by metis
  with 3 4 show ?thesis by blast
qed

lemma trim_ends:
  assumes "trim s \<noteq> []"
  shows "\<not> is_space (hd (trim s)) \<and> \<not> is_space (last (trim s))"
proof -
  let ?d = "dropWhile is_space s"
  let ?e = "dropWhile is_space (rev ?d)"
  have t: "trim s = rev ?e" by (simp add: trim_def)
  with assms have ne: "?e \<noteq> []" by simp
  then have "\<not> is_space (hd ?e)" by (rule hd_dropWhile)
  with ne t have last: "\<not> is_space (last (trim s))" by (simp add: last_rev)
  have dne: "?d \<noteq> []"
  proof
    assume "?d = []"
    then have "?e = []" by (simp only: rev.simps dropWhile.simps)
    with ne show False by blast
  qed
  then have hd_d: "\<not> is_space (hd ?d)" by (rule hd_dropWhile)
  have "rev (takeWhile is_space (rev ?d) @ ?e) = rev (rev ?d)"
    by (simp only: takeWhile_dropWhile_id)
  then have "rev ?e @ rev (takeWhile is_space (rev ?d)) = ?d"
    by (simp only: rev_append rev_rev_ident)
  then have "?d = trim s @ rev (takeWhile is_space (rev ?d))" by (simp only: trim_def)
  with assms have "hd ?d = hd (trim s)" by (metis hd_append2)
  with hd_d last show ?thesis by simp
qed

lemma trimmed_spec_unique:
  assumes "trimmed_spec s t"
  shows "t = trim s"
proof -
  from assms obtain l r where s: "s = l @ t @ r" and l: "\<forall>c\<in>set l. is_space c"
    and r: "\<forall>c\<in>set r. is_space c"
    and t: "t = [] \<or> (\<not> is_space (hd t) \<and> \<not> is_space (last t))"
    by (auto simp: trimmed_spec_def list_all_iff)
  show ?thesis
  proof (cases "t = []")
    case True
    with s l r have "\<forall>c\<in>set s. is_space c" by auto
    then have "dropWhile is_space s = []" by (simp only: dropWhile_eq_Nil_conv)
    with True show ?thesis by (simp only: trim_def rev.simps dropWhile.simps)
  next
    case False
    with t have h: "\<not> is_space (hd t)" and e: "\<not> is_space (last t)" by auto
    from False obtain a t' where ta: "t = a # t'" by (cases t) auto
    with h have "\<not> is_space a" by simp
    with s l ta have d: "dropWhile is_space s = t @ r"
      by (simp add: dropWhile_append2)
    from False have "rev t \<noteq> []" by simp
    then obtain b u where rt: "rev t = b # u" by (cases "rev t") auto
    with e False have "\<not> is_space b" by (metis hd_rev list.sel(1))
    moreover from r have "dropWhile is_space (rev r @ b # u) = dropWhile is_space (b # u)"
      by (intro dropWhile_append2) simp
    ultimately have "dropWhile is_space (rev r @ rev t) = rev t"
      using rt by simp
    then have "dropWhile is_space (rev (t @ r)) = rev t" by simp
    with d show ?thesis by (simp add: trim_def)
  qed
qed

lemma trimmed_spec_iff: "trimmed_spec s t \<longleftrightarrow> t = trim s"
proof
  assume "trimmed_spec s t" then show "t = trim s" by (rule trimmed_spec_unique)
next
  assume t: "t = trim s"
  from trim_decomp [of s] obtain l r where
    "s = l @ trim s @ r" "list_all is_space l" "list_all is_space r" by blast
  with trim_ends [of s] t show "trimmed_spec s t"
    unfolding trimmed_spec_def by blast
qed

lemma tag_end_Some:
  "tag_end cs = Some rest \<longleftrightarrow> (\<exists>body. cs = body @ 62 # rest \<and> 62 \<notin> set body)"
proof (induction cs)
  case Nil
  then show ?case by simp
next
  case (Cons c cs)
  show ?case
  proof (cases "c = 62")
    case True
    have "(\<exists>body. 62 # cs = body @ 62 # rest \<and> 62 \<notin> set body) \<longleftrightarrow> cs = rest"
    proof
      assume "\<exists>body. 62 # cs = body @ 62 # rest \<and> 62 \<notin> set body"
      then obtain body where b: "62 # cs = body @ 62 # rest" "62 \<notin> set body" by blast
      then have "body = []" by (cases body) auto
      with b show "cs = rest" by simp
    next
      assume "cs = rest"
      then have "62 # cs = [] @ 62 # rest \<and> 62 \<notin> set []" by simp
      then show "\<exists>body. 62 # cs = body @ 62 # rest \<and> 62 \<notin> set body" by blast
    qed
    with True show ?thesis by auto
  next
    case False
    have "(\<exists>body. c # cs = body @ 62 # rest \<and> 62 \<notin> set body)
          \<longleftrightarrow> (\<exists>body. cs = body @ 62 # rest \<and> 62 \<notin> set body)"
    proof
      assume "\<exists>body. c # cs = body @ 62 # rest \<and> 62 \<notin> set body"
      then obtain body where b: "c # cs = body @ 62 # rest" "62 \<notin> set body" by blast
      with False obtain b' where "body = c # b'" by (cases body) auto
      with b have "cs = b' @ 62 # rest \<and> 62 \<notin> set b'" by simp
      then show "\<exists>body. cs = body @ 62 # rest \<and> 62 \<notin> set body" by blast
    next
      assume "\<exists>body. cs = body @ 62 # rest \<and> 62 \<notin> set body"
      then obtain body where "cs = body @ 62 # rest" "62 \<notin> set body" by blast
      with False have "c # cs = (c # body) @ 62 # rest \<and> 62 \<notin> set (c # body)" by simp
      then show "\<exists>body. c # cs = body @ 62 # rest \<and> 62 \<notin> set body" by blast
    qed
    with False Cons show ?thesis by simp
  qed
qed

lemma remove_tags_strips: "strip_tags_spec s (remove_tags s)"
proof (induction s rule: remove_tags.induct)
  case 1
  show ?case by (simp add: strip_tags_spec.stop)
next
  case (2 c cs)
  show ?case
  proof (cases "c = 60")
    case False
    with "2.IH" show ?thesis by (simp add: strip_tags_spec.keep)
  next
    case True
    show ?thesis
    proof (cases "tag_end cs")
      case None
      then have "62 \<notin> set cs" by (simp add: tag_end_None)
      with True None "2.IH" show ?thesis by (simp add: strip_tags_spec.unclosed)
    next
      case (Some rest)
      then obtain body where b: "cs = body @ 62 # rest" "62 \<notin> set body"
        by (auto simp: tag_end_Some)
      from True Some "2.IH" have "strip_tags_spec rest (remove_tags rest)" by simp
      with b have "strip_tags_spec (60 # body @ 62 # rest) (remove_tags rest)"
        by (intro strip_tags_spec.tag)
      with True Some b show ?thesis by simp
    qed
  qed
qed

lemma strips_remove_tags: "strip_tags_spec s r \<Longrightarrow> r = remove_tags s"
proof (induction rule: strip_tags_spec.induct)
  case stop
  show ?case by simp
next
  case (keep c cs r)
  then show ?case by simp
next
  case (unclosed cs r)
  then have "tag_end cs = None" by (simp add: tag_end_None)
  with unclosed show ?case by simp
next
  case (tag body rest r)
  then have "tag_end (body @ 62 # rest) = Some rest" by (auto simp: tag_end_Some)
  with tag show ?case by simp
qed

lemma strip_tags_spec_iff: "strip_tags_spec s r \<longleftrightarrow> r = remove_tags s"
  using remove_tags_strips strips_remove_tags by blast

lemma sanitizeName_refines: "sanitizeName raw = res \<longleftrightarrow> sanitizeName_spec raw res"
proof (cases raw)
  case (JStr s)
  have empty: "take 20 (remove_dangerous (remove_tags (trim []))) = []"
    by (simp add: trim_def remove_dangerous_def)
  have "sanitizeName (JStr s) =
          (let v = take 20 (remove_dangerous (remove_tags (trim s)))
           in if v = [] then None else Some v)"
    using empty
    by (cases "s = []") (auto simp: sanitizeName_def Let_def MAX_NAME_LENGTH_def Suc_le_eq)
  with JStr show ?thesis
    by (auto simp: sanitizeName_spec_def trimmed_spec_iff strip_tags_spec_iff
        remove_dangerous_def dangerous_def)
qed (auto simp: sanitizeName_def sanitizeName_spec_def)

lemma create_stores_name:
  "handle_create_room e s w nm = Done s' out \<Longrightarrow>
     s' = s \<or> (\<exists>n. sanitizeName nm = Some n \<and> players s' w = Some (next_addr s)
               \<and> p_name (heap s' (next_addr s)) = n
               \<and> (\<forall>a. a \<noteq> next_addr s \<longrightarrow> heap s' a = heap s a))"
  unfolding handle_create_room_def Let_def
  by (auto simp: new_player_def simp del: generateRoomCode.simps split: if_splits option.splits)

lemma join_stores_name:
  "handle_join_room e s w nm rc = Done s' out \<Longrightarrow>
     s' = s \<or> (\<exists>n. sanitizeName nm = Some n \<and> players s' w = Some (next_addr s)
               \<and> p_name (heap s' (next_addr s)) = n
               \<and> (\<forall>a. a \<noteq> next_addr s \<longrightarrow> heap s' a = heap s a))"
  unfolding handle_join_room_def Let_def
  by (cases rc) (auto simp: new_player_def split: if_splits option.splits)

lemma create_room_stores:
  assumes "length (rooms s) < MAX_ROOMS" and "sanitizeName nm = Some n"
    and "generateRoomCode (map fst (rooms s)) (randoms e) = Some (code, rest)"
  shows "\<exists>s' out. handle_create_room e s w nm = Done s' out
           \<and> players s' w = Some (next_addr s) \<and> p_name (heap s' (next_addr s)) = n"
  using assms
  by (simp add: handle_create_room_def Let_def new_player_def del: generateRoomCode.simps)

lemma join_room_stores:
  assumes "isValidRoomCode (toUpperCase e) (JStr (toUpperCase e c0))"
    and "map_of (rooms s) (toUpperCase e c0) = Some r"
    and "length (r_players r) < MAX_PLAYERS_PER_ROOM" and "sanitizeName nm = Some n"
  shows "\<exists>s' out. handle_join_room e s w nm (JStr c0) = Done s' out
           \<and> players s' w = Some (next_addr s) \<and> p_name (heap s' (next_addr s)) = n"
  using assms
  by (simp add: handle_join_room_def Let_def new_player_def)

text \<open>
  C7. \<^verbatim>\<open>sanitizeName\<close> computes what the specification describes: \<^verbatim>\<open>null\<close> for every
  value that is not a string; for a string, the string trimmed, with the tag-like
  substrings removed (after which no \<^verbatim>\<open><\<close> is followed by a \<^verbatim>\<open>>\<close> any more), with
  the thirteen dangerous units removed, cut to 20 units, and \<^verbatim>\<open>null\<close> exactly when that
  result is empty. A result has between 1 and 20 units, none of them dangerous. A name
  that contains the text \<^verbatim>\<open><script>\<close> is never returned as it is, and the result does
  not contain that text. \<^verbatim>\<open>create_room\<close> and \<^verbatim>\<open>join_room\<close> store the result: when they
  change the state, the name of the new player object, which the connection now maps to,
  is the result of \<^verbatim>\<open>sanitizeName\<close> on the name sent, and they do store it when their
  other checks pass; so a name sent with \<^verbatim>\<open><script>\<close> in it is never stored as sent.
\<close>

theorem sanitizeName_result:
  "(sanitizeName raw = res \<longleftrightarrow> sanitizeName_spec raw res)
   \<and> (\<forall>v. (\<forall>s. v \<noteq> JStr s) \<longrightarrow> sanitizeName v = None)
   \<and> sanitizeName (JStr s) =
       (let r = take 20 (remove_dangerous (remove_tags (trim s)))
        in if r = [] then None else Some r)
   \<and> (\<forall>u v. remove_tags (trim s) = u @ 60 # v \<longrightarrow> 62 \<notin> set v)
   \<and> (\<forall>r. sanitizeName (JStr s) = Some r \<longrightarrow>
          r \<noteq> [] \<and> length r \<le> 20 \<and> set r \<inter> set dangerous = {})
   \<and> ((\<exists>u v. s = u @ str ''<script>'' @ v) \<longrightarrow>
          sanitizeName (JStr s) \<noteq> Some s
          \<and> (\<forall>r. sanitizeName (JStr s) = Some r \<longrightarrow> \<not> (\<exists>u v. r = u @ str ''<script>'' @ v)))
   \<and> (handleMessage e st w m = Done st' out \<longrightarrow> m = create_room raw \<or> m = join_room raw rc \<longrightarrow>
          st' = st
          \<or> (\<exists>n. sanitizeName raw = Some n \<and> players st' w = Some (next_addr st)
                  \<and> p_name (heap st' (next_addr st)) = n
                  \<and> (\<forall>a. a \<noteq> next_addr st \<longrightarrow> heap st' a = heap st a)))
   \<and> (length (rooms st) < MAX_ROOMS \<longrightarrow> sanitizeName raw = Some n \<longrightarrow>
        generateRoomCode (map fst (rooms st)) (randoms e) = Some (code, rest) \<longrightarrow>
          (\<exists>st1 o1. handleMessage e st w (create_room raw) = Done st1 o1
                     \<and> players st1 w = Some (next_addr st)
                     \<and> p_name (heap st1 (next_addr st)) = n))
   \<and> (isValidRoomCode (toUpperCase e) (JStr (toUpperCase e c0)) \<longrightarrow>
        map_of (rooms st) (toUpperCase e c0) = Some r0 \<longrightarrow>
        length (r_players r0) < MAX_PLAYERS_PER_ROOM \<longrightarrow> sanitizeName raw = Some n \<longrightarrow>
          (\<exists>st2 o2. handleMessage e st w (join_room raw (JStr c0)) = Done st2 o2
                     \<and> players st2 w = Some (next_addr st)
                     \<and> p_name (heap st2 (next_addr st)) = n))
   \<and> ((\<exists>u v. s = u @ str ''<script>'' @ v) \<longrightarrow> handleMessage e st w m = Done st' out \<longrightarrow>
        m = create_room (JStr s) \<or> m = join_room (JStr s) rc \<longrightarrow>
          st' = st
          \<or> (players st' w = Some (next_addr st) \<and> p_name (heap st' (next_addr st)) \<noteq> s
              \<and> 60 \<notin> set (p_name (heap st' (next_addr st)))))"
proof -
  have clean: "60 \<notin> set r" if "sanitizeName (JStr s) = Some r" for r
  proof -
    from that have "r = take 20 (remove_dangerous (remove_tags (trim s)))"
      by (auto simp: sanitizeName_def Let_def MAX_NAME_LENGTH_def split: if_splits)
    with sanitized_clean [of 20 "remove_tags (trim s)"] show ?thesis
      by (auto simp: dangerous_def)
  qed
  have stores: "st' = st
          \<or> (\<exists>n. sanitizeName nm = Some n \<and> players st' w = Some (next_addr st)
                  \<and> p_name (heap st' (next_addr st)) = n
                  \<and> (\<forall>a. a \<noteq> next_addr st \<longrightarrow> heap st' a = heap st a))"
    if "handleMessage e st w m = Done st' out" "m = create_room nm \<or> m = join_room nm rc"
    for nm
    using that create_stores_name [of e st w nm st' out] join_stores_name [of e st w nm rc st' out]
    by auto
  have 1: "sanitizeName raw = res \<longleftrightarrow> sanitizeName_spec raw res"
    by (rule sanitizeName_refines)
  have 2: "\<forall>v. (\<forall>s. v \<noteq> JStr s) \<longrightarrow> sanitizeName v = None"
  proof (intro allI impI)
    fix v :: jsval assume "\<forall>s. v \<noteq> JStr s"
    then show "sanitizeName v = None" by (cases v) (auto simp: sanitizeName_def)
  qed
  have 3: "sanitizeName (JStr s) =
       (let r = take 20 (remove_dangerous (remove_tags (trim s)))
        in if r = [] then None else Some r)"
    by (cases "s = []")
       (auto simp: sanitizeName_def Let_def MAX_NAME_LENGTH_def trim_Nil remove_dangerous_def
          Suc_le_eq)
  have 4: "\<forall>u v. remove_tags (trim s) = u @ 60 # v \<longrightarrow> 62 \<notin> set v"
    by (blast dest: remove_tags_no_tag)
  have 5: "\<forall>r. sanitizeName (JStr s) = Some r \<longrightarrow>
          r \<noteq> [] \<and> length r \<le> 20 \<and> set r \<inter> set dangerous = {}"
  proof (intro allI impI)
    fix r assume "sanitizeName (JStr s) = Some r"
    then have eq: "r = take 20 (remove_dangerous (remove_tags (trim s)))" and ne: "r \<noteq> []"
      by (auto simp: sanitizeName_def Let_def MAX_NAME_LENGTH_def split: if_splits)
    from sanitized_clean [of 20 "remove_tags (trim s)"] eq ne
    show "r \<noteq> [] \<and> length r \<le> 20 \<and> set r \<inter> set dangerous = {}" by simp
  qed
  have 6: "(\<exists>u v. s = u @ str ''<script>'' @ v) \<longrightarrow>
          sanitizeName (JStr s) \<noteq> Some s
          \<and> (\<forall>r. sanitizeName (JStr s) = Some r \<longrightarrow> \<not> (\<exists>u v. r = u @ str ''<script>'' @ v))"
  proof (intro impI conjI allI)
    assume "\<exists>u v. s = u @ str ''<script>'' @ v"
    then have "60 \<in> set s" by (auto simp: str_def)
    with clean [of s] show "sanitizeName (JStr s) \<noteq> Some s" by blast
  next
    fix r assume "sanitizeName (JStr s) = Some r"
    then have "60 \<notin> set r" by (rule clean)
    then show "\<not> (\<exists>u v. r = u @ str ''<script>'' @ v)" by (auto simp: str_def)
  qed
  have 7: "handleMessage e st w m = Done st' out \<longrightarrow> m = create_room raw \<or> m = join_room raw rc \<longrightarrow>
          st' = st
          \<or> (\<exists>n. sanitizeName raw = Some n \<and> players st' w = Some (next_addr st)
                  \<and> p_name (heap st' (next_addr st)) = n
                  \<and> (\<forall>a. a \<noteq> next_addr st \<longrightarrow> heap st' a = heap st a))"
    using stores [of raw] by blast
  have 8: "length (rooms st) < MAX_ROOMS \<longrightarrow> sanitizeName raw = Some n \<longrightarrow>
        generateRoomCode (map fst (rooms st)) (randoms e) = Some (code, rest) \<longrightarrow>
          (\<exists>st1 o1. handleMessage e st w (create_room raw) = Done st1 o1
                     \<and> players st1 w = Some (next_addr st)
                     \<and> p_name (heap st1 (next_addr st)) = n)"
    using create_room_stores [of st raw n e code rest w] by simp
  have 9: "isValidRoomCode (toUpperCase e) (JStr (toUpperCase e c0)) \<longrightarrow>
        map_of (rooms st) (toUpperCase e c0) = Some r0 \<longrightarrow>
        length (r_players r0) < MAX_PLAYERS_PER_ROOM \<longrightarrow> sanitizeName raw = Some n \<longrightarrow>
          (\<exists>st2 o2. handleMessage e st w (join_room raw (JStr c0)) = Done st2 o2
                     \<and> players st2 w = Some (next_addr st)
                     \<and> p_name (heap st2 (next_addr st)) = n)"
    using join_room_stores [of e c0 st r0 raw n w] by simp
  have 10: "(\<exists>u v. s = u @ str ''<script>'' @ v) \<longrightarrow> handleMessage e st w m = Done st' out \<longrightarrow>
        m = create_room (JStr s) \<or> m = join_room (JStr s) rc \<longrightarrow>
          st' = st
          \<or> (players st' w = Some (next_addr st) \<and> p_name (heap st' (next_addr st)) \<noteq> s
              \<and> 60 \<notin> set (p_name (heap st' (next_addr st))))"
  proof (intro impI)
    assume tag: "\<exists>u v. s = u @ str ''<script>'' @ v"
      and run: "handleMessage e st w m = Done st' out"
      and m: "m = create_room (JStr s) \<or> m = join_room (JStr s) rc"
    from tag have lt: "60 \<in> set s" by (auto simp: str_def)
    from stores [OF run m] show "st' = st
          \<or> (players st' w = Some (next_addr st) \<and> p_name (heap st' (next_addr st)) \<noteq> s
              \<and> 60 \<notin> set (p_name (heap st' (next_addr st))))"
    proof
      assume "st' = st" then show ?thesis by simp
    next
      assume "\<exists>n. sanitizeName (JStr s) = Some n \<and> players st' w = Some (next_addr st)
                  \<and> p_name (heap st' (next_addr st)) = n
                  \<and> (\<forall>a. a \<noteq> next_addr st \<longrightarrow> heap st' a = heap st a)"
      then obtain n where n: "sanitizeName (JStr s) = Some n" "players st' w = Some (next_addr st)"
        "p_name (heap st' (next_addr st)) = n" by blast
      from clean [OF n(1)] lt n show ?thesis by auto
    qed
  qed
  from 1 2 3 4 5 6 7 8 9 10 show ?thesis by blast
qed

theorem sanitizeName_result_witness:
  "[160, 32] @ str ''<script>Ann</script>'' @ [9]
     = [160, 32] @ str ''<script>'' @ (str ''Ann</script>'' @ [9])
   \<and> sanitizeName (JStr ([160, 32] @ str ''<script>Ann</script>'' @ [9])) = Some (str ''Ann'')
   \<and> sanitizeName_spec (JStr ([160, 32] @ str ''<script>Ann</script>'' @ [9])) (Some (str ''Ann''))
   \<and> sanitizeName JOther = None
   \<and> handleMessage env_ann initial 1
        (create_room (JStr ([160, 32] @ str ''<script>Ann</script>'' @ [9])))
      = Done ann_alone
          [(1, room_created (str ''AAAA'') (str ''u1'') (str ''t1'')
                 (getRoomState ann_alone (str ''AAAA'') False))]
   \<and> players ann_alone 1 = Some 0
   \<and> p_name (heap ann_alone 0) = str ''Ann''"
proof -
  let ?raw = "[160, 32] @ str ''<script>Ann</script>'' @ [9]"
  let ?out = "[(1, room_created (str ''AAAA'') (str ''u1'') (str ''t1'')
                     (getRoomState ann_alone (str ''AAAA'') False))]"
  have split: "?raw = [160, 32] @ str ''<script>'' @ (str ''Ann</script>'' @ [9])"
    by (simp add: str_def)
  then have tag: "\<exists>u v. ?raw = u @ str ''<script>'' @ v" by blast
  have res: "sanitizeName (JStr ?raw) = Some (str ''Ann'')"
    by (simp add: sanitizeName_def str_def trim_def is_space_def remove_dangerous_def
        dangerous_def MAX_NAME_LENGTH_def)
  have other: "\<forall>s. JOther \<noteq> JStr s" by simp
  have run: "handleMessage env_ann initial 1 (create_room (JStr ?raw)) = Done ann_alone ?out"
    by (simp add: eval_defs)
  have st: "players ann_alone 1 = Some 0" "p_name (heap ann_alone 0) = str ''Ann''"
    by (simp_all add: ann_alone_def initial_def new_player_def)
  from sanitizeName_result [of "JStr ?raw" "Some (str ''Ann'')" ?raw env_ann initial 1
         "create_room (JStr ?raw)" ann_alone ?out JNull]
       res tag other run
  have spec: "sanitizeName_spec (JStr ?raw) (Some (str ''Ann''))"
    and oth: "sanitizeName JOther = None" by blast+
  from split res spec oth run st(1,2) show ?thesis by blast
qed

section \<open>Room codes\<close>

text \<open>
  A random value in the range of \<^verbatim>\<open>Math.random()\<close> picks one unit of the alphabet, so a
  draw of four gives four units. A returned code is the first draw that no live room has;
  the call returns when there is such a draw.
\<close>

lemma length_chars: "length chars = 32"
  by (simp add: chars_def str_def)

lemma distinct_chars: "distinct chars"
  by (simp add: chars_def str_def)

lemma pick_char_unit:
  assumes "0 \<le> r" "r < 1"
  shows "\<exists>c. pick_char r = [c] \<and> c \<in> set chars"
proof -
  have lo: "0 \<le> \<lfloor>r * 32\<rfloor>" using assms by simp
  have "r * 32 < real_of_int 32" using assms by simp
  then have fl: "\<lfloor>r * 32\<rfloor> < 32" by (simp only: floor_less_iff)
  from lo fl have hi: "nat \<lfloor>r * 32\<rfloor> < 32" by linarith
  have cond: "0 \<le> \<lfloor>r * real (length chars)\<rfloor> \<and> nat \<lfloor>r * real (length chars)\<rfloor> < length chars"
    unfolding length_chars of_nat_numeral using lo hi by blast
  then have "pick_char r = [chars ! nat \<lfloor>r * real (length chars)\<rfloor>]"
    unfolding pick_char_def Let_def by (rule if_P)
  moreover have "chars ! nat \<lfloor>r * real (length chars)\<rfloor> \<in> set chars"
    using cond by (intro nth_mem) blast
  ultimately show ?thesis by blast
qed

lemma draw_code_concat: "foldl (\<lambda>code r. code @ pick_char r) acc rs = acc @ concat (map pick_char rs)"
  by (induction rs arbitrary: acc) auto

lemma draw_code_units:
  "\<forall>r\<in>set rs. 0 \<le> r \<and> r < 1 \<Longrightarrow> length (draw_code rs) = length rs \<and> set (draw_code rs) \<subseteq> set chars"
proof (induction rs)
  case Nil
  then show ?case by (simp add: draw_code_def)
next
  case (Cons r rs)
  then obtain c where "pick_char r = [c]" "c \<in> set chars"
    using pick_char_unit [of r] by auto
  with Cons show ?case by (auto simp: draw_code_def draw_code_concat)
qed

lemma generateRoomCode_fresh:
  "generateRoomCode live rs = Some (code, rest) \<Longrightarrow>
     code \<notin> set live \<and> (\<exists>k. code = draw_code (take 4 (drop (4 * k) rs)) \<and> 4 * k + 4 \<le> length rs \<and> rest = drop (4 * k + 4) rs)"
proof (induction live rs rule: generateRoomCode.induct)
  case (1 live rs)
  show ?case
  proof (cases "length rs < 4")
    case True
    with "1.prems" show ?thesis by simp
  next
    case long: False
    show ?thesis
    proof (cases "draw_code (take 4 rs) \<in> set live")
      case False
      with long "1.prems" have "code = draw_code (take 4 rs)" "rest = drop 4 rs" by (auto simp: Let_def)
      with False long show ?thesis by (intro conjI exI [of _ 0]) auto
    next
      case True
      with long "1.prems" have rec: "generateRoomCode live (drop 4 rs) = Some (code, rest)"
        by (simp add: Let_def)
      from "1.IH" [OF long refl True rec] obtain k where
        k: "code \<notin> set live" "code = draw_code (take 4 (drop (4 * k) (drop 4 rs)))"
           "4 * k + 4 \<le> length (drop 4 rs)" "rest = drop (4 * k + 4) (drop 4 rs)" by blast
      then show ?thesis
        by (intro conjI exI [of _ "Suc k"]) (auto simp: add.commute)
    qed
  qed
qed

lemma generateRoomCode_returns:
  "4 * k + 4 \<le> length rs \<Longrightarrow> draw_code (take 4 (drop (4 * k) rs)) \<notin> set live \<Longrightarrow>
     \<exists>res. generateRoomCode live rs = Some res"
proof (induction k arbitrary: rs)
  case 0
  then show ?case by (cases "draw_code (take 4 rs) \<in> set live") (auto simp: Let_def)
next
  case (Suc k)
  have "4 * k + 4 \<le> length (drop 4 rs)" using Suc.prems by simp
  moreover have "draw_code (take 4 (drop (4 * k) (drop 4 rs))) \<notin> set live"
    using Suc.prems by (simp add: add.commute)
  ultimately obtain res where "generateRoomCode live (drop 4 rs) = Some res"
    using Suc.IH by blast
  moreover have "\<not> length rs < 4" using Suc.prems by simp
  ultimately show ?case
    by (cases "draw_code (take 4 rs) \<in> set live") (simp_all add: Let_def)
qed

text \<open>
  C6, as the claim states it: the alphabet has 33 symbols. It has 32.
\<close>

theorem room_code_alphabet_counterexample: "card (set chars) = 32 \<and> card (set chars) \<noteq> 33"
  using distinct_card [OF distinct_chars] by (simp add: length_chars)

text \<open>
  C6, amended. The alphabet of \<^verbatim>\<open>generateRoomCode\<close> has 32 distinct symbols. With
  random values in the range of \<^verbatim>\<open>Math.random()\<close>, a code it returns has 4 units, all
  of the alphabet, and is not the code of a live room. It returns as soon as one of its
  draws of four values gives a code that no live room has.
\<close>

theorem generateRoomCode_correct:
  "length chars = 32 \<and> distinct chars
   \<and> ((\<forall>r\<in>set rs. 0 \<le> r \<and> r < 1) \<longrightarrow> generateRoomCode live rs = Some (code, rest) \<longrightarrow>
        length code = 4 \<and> set code \<subseteq> set chars \<and> code \<notin> set live)
   \<and> (4 * k + 4 \<le> length rs \<longrightarrow> draw_code (take 4 (drop (4 * k) rs)) \<notin> set live \<longrightarrow>
        (\<exists>res. generateRoomCode live rs = Some res))"
proof (intro conjI impI)
  show "length chars = 32" by (rule length_chars)
  show "distinct chars" by (rule distinct_chars)
next
  assume unit: "\<forall>r\<in>set rs. 0 \<le> r \<and> r < 1" and res: "generateRoomCode live rs = Some (code, rest)"
  from generateRoomCode_fresh [OF res] obtain k where
    k: "code \<notin> set live" "code = draw_code (take 4 (drop (4 * k) rs))" "4 * k + 4 \<le> length rs"
    by blast
  have "\<forall>r\<in>set (take 4 (drop (4 * k) rs)). 0 \<le> r \<and> r < 1"
    using unit by (meson in_set_dropD in_set_takeD)
  from draw_code_units [OF this] k
  show "length code = 4" "set code \<subseteq> set chars" "code \<notin> set live" by auto
next
  assume "4 * k + 4 \<le> length rs" "draw_code (take 4 (drop (4 * k) rs)) \<notin> set live"
  then show "\<exists>res. generateRoomCode live rs = Some res" by (rule generateRoomCode_returns)
qed

theorem generateRoomCode_correct_witness:
  "list_all (\<lambda>r. 0 \<le> r \<and> r < 1) [0, 0, 0, 0, 1/2, 1/32, 3/4, 31/32 :: real]
   \<and> generateRoomCode [str ''AAAA''] [0, 0, 0, 0, 1/2, 1/32, 3/4, 31/32] = Some (str ''SB29'', [])
   \<and> length (str ''SB29'') = 4 \<and> set (str ''SB29'') \<subseteq> set chars
   \<and> str ''SB29'' \<notin> set [str ''AAAA'']"
proof -
  have unit: "\<forall>r\<in>set [0, 0, 0, 0, 1/2, 1/32, 3/4, 31/32 :: real]. 0 \<le> r \<and> r < 1" by simp
  have res: "generateRoomCode [str ''AAAA''] [0, 0, 0, 0, 1/2, 1/32, 3/4, 31/32]
               = Some (str ''SB29'', [])"
    by (simp add: draw_code_def pick_char_def chars_def str_def Let_def)
  have len: "4 * 1 + 4 \<le> length [0, 0, 0, 0, 1/2, 1/32, 3/4, 31/32 :: real]" by simp
  have free: "draw_code (take 4 (drop (4 * 1) [0, 0, 0, 0, 1/2, 1/32, 3/4, 31/32]))
                \<notin> set [str ''AAAA'']"
    by (simp add: draw_code_def pick_char_def chars_def str_def Let_def)
  from generateRoomCode_correct
         [of "[0, 0, 0, 0, 1/2, 1/32, 3/4, 31/32]" "[str ''AAAA'']" "str ''SB29''" "[]" 1]
       unit res len free
  show ?thesis by (simp only: list_all_iff) blast
qed

section \<open>Snapshots\<close>

text \<open>
  A snapshot built without the vote-visibility flag shows a card only when the room's
  state is \<open>revealed\<close>.
\<close>

lemma getRoomState_room:
  "map_of (rooms s) code = Some r \<Longrightarrow>
   getRoomState s code iv =
     Some \<lparr> roomCode = code, state = r_state r,
            playersList = map (\<lambda>(w, a). view_of iv (r_state r) (heap s a)) (r_players r),
            cardValues = CARD_VALUES \<rparr>"
  by (simp add: getRoomState_def)

lemma getRoomState_hidden:
  "getRoomState s code False = Some snap \<Longrightarrow> state snap = revealed \<or> cards_hidden snap"
  by (auto simp: getRoomState_def cards_hidden_def view_of_def list_all_iff split: option.splits)

section \<open>Selecting a card\<close>

lemma select_card_effect:
  assumes "players s w = Some a" and "map_of (rooms s) (p_roomCode (heap s a)) = Some r"
    and "r_state r = voting" and "isValidCard c"
  shows "handle_select_card s w c =
     Done (s\<lparr> heap := (heap s)(a := (heap s a)\<lparr>selectedCard := c\<rparr>) \<rparr>)
       (map (\<lambda>(x, y). (x, player_selected (p_id (heap s a))
          (Some \<lparr> roomCode = p_roomCode (heap s a), state = voting,
                  playersList = map (\<lambda>(x, y). view_of False voting
                       (((heap s)(a := (heap s a)\<lparr>selectedCard := c\<rparr>)) y)) (r_players r),
                  cardValues = CARD_VALUES \<rparr>)))
          (filter (\<lambda>(x, y). readyState s x = 1) (r_players r)))"
  using assms
  by (simp add: handle_select_card_def Let_def getRoomState_def broadcastToRoom_def
      case_prod_unfold)

text \<open>
  C3, as the claim states it: a \<^verbatim>\<open>select_card\<close> in a room that is not voting is
  answered with an error, and so is every card outside the card set. Bob sends the card
  4, which is not in the set, while the room is waiting: the server sends nothing.
\<close>

theorem select_card_error_counterexample:
  "room_state_of (two_players waiting JNull) (str ''AAAA'') = Some waiting
   \<and> str ''4'' \<notin> set CARD_VALUES
   \<and> handleMessage env_bob (two_players waiting JNull) 2 (select_card (JStr (str ''4'')))
     = Done (two_players waiting JNull) []"
  by (simp add: room_state_of_def eval_defs)

text \<open>
  C3, amended. For a player in a room whose state is not \<open>voting\<close>, \<^verbatim>\<open>select_card\<close>
  is a silent no-op: no state changes and nothing is sent, whatever the card. In a voting
  room, a card that is neither \<^verbatim>\<open>null\<close> nor in the card set gets the error reply
  "Invalid card value", sent to the sender alone, and no state changes.
\<close>

theorem select_card_rejected:
  "(players s w = Some a \<longrightarrow> map_of (rooms s) (p_roomCode (heap s a)) = Some r \<longrightarrow>
        r_state r \<noteq> voting \<longrightarrow> handleMessage e s w (select_card c) = Done s [])
   \<and> (players s w = Some a \<longrightarrow> map_of (rooms s) (p_roomCode (heap s a)) = Some r \<longrightarrow>
        r_state r = voting \<longrightarrow> c \<noteq> JNull \<longrightarrow> (\<forall>v\<in>set CARD_VALUES. c \<noteq> JStr v) \<longrightarrow>
        handleMessage e s w (select_card c) = Done s [(w, error_msg ''Invalid card value'')])"
  by (cases c) (auto simp: handle_select_card_def isValidCard_def)

theorem select_card_rejected_witness:
  "handleMessage env_bob (two_players revealed (JStr (str ''5''))) 2 (select_card (JStr (str ''8'')))
     = Done (two_players revealed (JStr (str ''5''))) []
   \<and> handleMessage env_bob (two_players voting (JStr (str ''5''))) 2 (select_card (JStr (str ''4'')))
     = Done (two_players voting (JStr (str ''5''))) [(2, error_msg ''Invalid card value'')]"
proof -
  let ?R = "two_players revealed (JStr (str ''5''))"
  let ?V = "two_players voting (JStr (str ''5''))"
  let ?r = "\<lambda>st. \<lparr> r_state = st, r_players = [(1, 0), (2, 1)], r_createdAt = 1000 \<rparr>"
  have R: "players ?R 2 = Some 1" "map_of (rooms ?R) (p_roomCode (heap ?R 1)) = Some (?r revealed)"
          "r_state (?r revealed) \<noteq> voting"
    by (simp_all add: two_players_def new_player_def)
  have V: "players ?V 2 = Some 1" "map_of (rooms ?V) (p_roomCode (heap ?V 1)) = Some (?r voting)"
          "r_state (?r voting) = voting"
    by (simp_all add: two_players_def new_player_def)
  have c: "JStr (str ''4'') \<noteq> JNull" "\<forall>v\<in>set CARD_VALUES. JStr (str ''4'') \<noteq> JStr v"
    by (simp_all add: CARD_VALUES_def str_def)
  from select_card_rejected [of ?R 2 1 "?r revealed" env_bob "JStr (str ''8'')"] R
  have 1: "handleMessage env_bob ?R 2 (select_card (JStr (str ''8''))) = Done ?R []" by blast
  from select_card_rejected [of ?V 2 1 "?r voting" env_bob "JStr (str ''4'')"] V c
  have 2: "handleMessage env_bob ?V 2 (select_card (JStr (str ''4'')))
             = Done ?V [(2, error_msg ''Invalid card value'')]" by blast
  from 1 2 show ?thesis by blast
qed

text \<open>
  C8. When a player of a voting room selects a valid card, the snapshot broadcast with
  \<^verbatim>\<open>player_selected\<close> is the same for every recipient, the selecting player included,
  and has \<^verbatim>\<open>card = null\<close> for every player, the selecting player included: of the
  selection it shows only \<^verbatim>\<open>hasSelected\<close>.
\<close>

theorem own_card_hidden:
  assumes "players s w = Some a" and "map_of (rooms s) (p_roomCode (heap s a)) = Some r"
    and "r_state r = voting" and "isValidCard c"
  shows "(let s' = s\<lparr> heap := (heap s)(a := (heap s a)\<lparr>selectedCard := c\<rparr>) \<rparr>;
              snap = \<lparr> roomCode = p_roomCode (heap s a), state = voting,
                       playersList = map (\<lambda>(x, y). view_of False voting (heap s' y)) (r_players r),
                       cardValues = CARD_VALUES \<rparr>
          in handleMessage e s w (select_card c) =
               Done s' (map (\<lambda>(x, y). (x, player_selected (p_id (heap s a)) (Some snap)))
                          (filter (\<lambda>(x, y). readyState s x = 1) (r_players r)))
             \<and> getRoomState s' (p_roomCode (heap s a)) False = Some snap
             \<and> selectedCard (heap s' a) = c
             \<and> (\<forall>v\<in>set (playersList snap). v_card v = JNull)
             \<and> v_card (view_of False voting (heap s' a)) = JNull
             \<and> hasSelected (view_of False voting (heap s' a)) = (c \<noteq> JNull))"
  using select_card_effect [OF assms] assms(2,3)
  by (auto simp: view_of_def Let_def getRoomState_def)

theorem own_card_hidden_witness:
  "players (two_players voting JNull) 2 = Some 1
   \<and> isValidCard (JStr (str ''5''))
   \<and> handleMessage env_bob (two_players voting JNull) 2 (select_card (JStr (str ''5'')))
     = Done (two_players voting (JStr (str ''5'')))
         [(1, player_selected (str ''u2'') (Some (voting_snapshot (JStr (str ''5''))))),
          (2, player_selected (str ''u2'') (Some (voting_snapshot (JStr (str ''5'')))))]
   \<and> selectedCard (heap (two_players voting (JStr (str ''5''))) 1) = JStr (str ''5'')
   \<and> map v_card (playersList (voting_snapshot (JStr (str ''5'')))) = [JNull, JNull]
   \<and> map hasSelected (playersList (voting_snapshot (JStr (str ''5'')))) = [False, True]"
proof -
  let ?S = "two_players voting JNull"
  let ?r = "\<lparr> r_state = voting, r_players = [(1, 0), (2, 1)], r_createdAt = 1000 \<rparr>"
  have h: "players ?S 2 = Some 1" "map_of (rooms ?S) (p_roomCode (heap ?S 1)) = Some ?r"
          "r_state ?r = voting" "isValidCard (JStr (str ''5''))"
    by (simp_all add: two_players_def new_player_def isValidCard_def CARD_VALUES_def)
  have s': "?S\<lparr> heap := (heap ?S)(1 := (heap ?S 1)\<lparr>selectedCard := JStr (str ''5'')\<rparr>) \<rparr>
              = two_players voting (JStr (str ''5''))"
    by (simp add: two_players_def)
  from own_card_hidden [OF h, of env_bob] show ?thesis
    unfolding s' Let_def using h(1,4)
    by (simp add: two_players_def new_player_def env_bob_def env_ann_def view_of_def
        voting_snapshot_def initial_def)
qed

text \<open>
  C9. \<^verbatim>\<open>isValidCard(null)\<close> is true; when a player of a voting room sends
  \<^verbatim>\<open>select_card\<close> with \<^verbatim>\<open>card = null\<close>, the player's \<^verbatim>\<open>selectedCard\<close> becomes
  \<^verbatim>\<open>null\<close> and the snapshot broadcast afterwards shows the player with
  \<^verbatim>\<open>hasSelected = false\<close>.
\<close>

theorem retract_selection:
  assumes "players s w = Some a" and "map_of (rooms s) (p_roomCode (heap s a)) = Some r"
    and "r_state r = voting"
  shows "isValidCard JNull
    \<and> (let s' = s\<lparr> heap := (heap s)(a := (heap s a)\<lparr>selectedCard := JNull\<rparr>) \<rparr>;
            snap = \<lparr> roomCode = p_roomCode (heap s a), state = voting,
                     playersList = map (\<lambda>(x, y). view_of False voting (heap s' y)) (r_players r),
                     cardValues = CARD_VALUES \<rparr>
        in handleMessage e s w (select_card JNull) =
             Done s' (map (\<lambda>(x, y). (x, player_selected (p_id (heap s a)) (Some snap)))
                        (filter (\<lambda>(x, y). readyState s x = 1) (r_players r)))
           \<and> getRoomState s' (p_roomCode (heap s a)) False = Some snap
           \<and> selectedCard (heap s' a) = JNull
           \<and> view_of False voting (heap s' a) =
               \<lparr> v_id = p_id (heap s a), v_name = p_name (heap s a),
                 v_isHost = isHost (heap s a), hasSelected = False, v_card = JNull \<rparr>)"
proof -
  have valid: "isValidCard JNull" by (simp add: isValidCard_def)
  from select_card_effect [OF assms valid] valid assms(2,3) show ?thesis
    by (auto simp: view_of_def Let_def getRoomState_def)
qed

theorem retract_selection_witness:
  "players (two_players voting (JStr (str ''5''))) 2 = Some 1
   \<and> handleMessage env_bob (two_players voting (JStr (str ''5''))) 2 (select_card JNull)
     = Done (two_players voting JNull)
         [(1, player_selected (str ''u2'') (Some (voting_snapshot JNull))),
          (2, player_selected (str ''u2'') (Some (voting_snapshot JNull)))]
   \<and> selectedCard (heap (two_players voting JNull) 1) = JNull
   \<and> map hasSelected (playersList (voting_snapshot JNull)) = [False, False]"
proof -
  let ?S = "two_players voting (JStr (str ''5''))"
  let ?r = "\<lparr> r_state = voting, r_players = [(1, 0), (2, 1)], r_createdAt = 1000 \<rparr>"
  have h: "players ?S 2 = Some 1" "map_of (rooms ?S) (p_roomCode (heap ?S 1)) = Some ?r"
          "r_state ?r = voting"
    by (simp_all add: two_players_def new_player_def)
  have s': "?S\<lparr> heap := (heap ?S)(1 := (heap ?S 1)\<lparr>selectedCard := JNull\<rparr>) \<rparr>
              = two_players voting JNull"
    by (simp add: two_players_def)
  from retract_selection [OF h, of env_bob] show ?thesis
    unfolding s' Let_def using h(1)
    by (simp add: two_players_def new_player_def env_bob_def env_ann_def view_of_def
        voting_snapshot_def initial_def)
qed

section \<open>The room state machine\<close>

text \<open>
  Handler by handler: which rooms change their state, to what, and on whose message.
\<close>

lemma map_of_map_delete:
  "map_of (map_delete k kvs) k' = (if k' = k then None else map_of kvs k')"
  by (induction kvs) (auto simp: map_delete_def)

lemma room_state_map_set:
  "room_state_of (s\<lparr>rooms := map_set k r (rooms s)\<rparr>) code
     = (if code = k then Some (r_state r) else room_state_of s code)"
  by (simp add: room_state_of_def map_of_map_set)

lemma room_state_heap [simp]: "room_state_of (s\<lparr>heap := h\<rparr>) code = room_state_of s code"
  by (simp add: room_state_of_def)

lemma fresh_code_no_room:
  "generateRoomCode (map fst (rooms s)) rs = Some (code, rest) \<Longrightarrow> map_of (rooms s) code = None"
proof -
  assume "generateRoomCode (map fst (rooms s)) rs = Some (code, rest)"
  then have "code \<notin> set (map fst (rooms s))" by (blast dest: generateRoomCode_fresh)
  then show ?thesis by (simp add: map_of_eq_None_iff)
qed

lemma state_create:
  "handle_create_room e s w nm = Done s' out \<Longrightarrow>
     room_state_of s' code = (if room_state_of s code = None \<and> room_state_of s' code \<noteq> None
                              then Some waiting else room_state_of s code)"
  unfolding handle_create_room_def Let_def
  by (auto simp: room_state_of_def map_of_map_set simp del: generateRoomCode.simps
      split: if_splits option.splits dest!: fresh_code_no_room)

lemma state_join:
  "handle_join_room e s w nm rc = Done s' out \<Longrightarrow> room_state_of s' code = room_state_of s code"
  unfolding handle_join_room_def Let_def
  by (cases rc) (auto simp: room_state_of_def map_of_map_set split: if_splits option.splits)

lemma state_select:
  "handle_select_card s w c = Done s' out \<Longrightarrow> room_state_of s' code = room_state_of s code"
  unfolding handle_select_card_def Let_def
  by (auto simp: room_state_of_def split: if_splits option.splits)

lemma state_close_reveal:
  "handle_close_reveal s w = Done s' out \<Longrightarrow> room_state_of s' code = room_state_of s code"
  unfolding handle_close_reveal_def Let_def
  by (auto simp: room_state_of_def split: if_splits option.splits)

lemma state_start:
  "handle_start_round s w = Done s' out \<Longrightarrow> room_state_of s' code \<noteq> room_state_of s code \<Longrightarrow>
     (\<exists>a. players s w = Some a \<and> isHost (heap s a) \<and> p_roomCode (heap s a) = code)
     \<and> room_state_of s code \<noteq> None \<and> room_state_of s' code = Some voting"
  unfolding handle_start_round_def Let_def
  by (auto simp: room_state_of_def map_of_map_set split: if_splits option.splits)

lemma state_reveal:
  "handle_reveal_cards s w = Done s' out \<Longrightarrow> room_state_of s' code \<noteq> room_state_of s code \<Longrightarrow>
     (\<exists>a. players s w = Some a \<and> isHost (heap s a) \<and> p_roomCode (heap s a) = code)
     \<and> room_state_of s code \<noteq> None \<and> room_state_of s' code = Some revealed"
  unfolding handle_reveal_cards_def Let_def
  by (auto simp: room_state_of_def map_of_map_set split: if_splits option.splits)

lemma state_reset:
  "handle_reset_round s w = Done s' out \<Longrightarrow> room_state_of s' code \<noteq> room_state_of s code \<Longrightarrow>
     (\<exists>a. players s w = Some a \<and> isHost (heap s a) \<and> p_roomCode (heap s a) = code)
     \<and> room_state_of s code \<noteq> None \<and> room_state_of s' code = Some waiting"
  unfolding handle_reset_round_def Let_def
  by (auto simp: room_state_of_def map_of_map_set split: if_splits option.splits)

lemma state_on_close:
  "on_close s w = (s', out) \<Longrightarrow> room_state_of s' code = Some st' \<Longrightarrow> room_state_of s code = Some st'"
  unfolding on_close_def Let_def
  by (auto simp: room_state_of_def map_of_map_set map_of_map_delete split: if_splits option.splits)

lemma host_sets_state:
  assumes "players s w = Some a" "isHost (heap s a)" "room_state_of s (p_roomCode (heap s a)) = Some st"
  shows "\<exists>s' out. handle_start_round s w = Done s' out \<and> room_state_of s' (p_roomCode (heap s a)) = Some voting"
    and "\<exists>s' out. handle_reveal_cards s w = Done s' out \<and> room_state_of s' (p_roomCode (heap s a)) = Some revealed"
    and "\<exists>s' out. handle_reset_round s w = Done s' out \<and> room_state_of s' (p_roomCode (heap s a)) = Some waiting"
  using assms
  by (auto simp: handle_start_round_def handle_reveal_cards_def handle_reset_round_def Let_def
      room_state_of_def map_of_map_set)

text \<open>
  C4, as the claim states it: no host-gated operation takes a room from \<open>waiting\<close> to
  \<open>revealed\<close>, or from \<open>revealed\<close> to \<open>voting\<close>. The host Ann sends
  \<^verbatim>\<open>reveal_cards\<close> while the room is waiting, and \<^verbatim>\<open>start_round\<close> while it is
  revealed: both are carried out.
\<close>

theorem state_cycle_counterexample:
  "room_state_of (two_players waiting JNull) (str ''AAAA'') = Some waiting
   \<and> run_messages (two_players waiting JNull) [(env_ann, 1, reveal_cards)]
       = Some (two_players revealed JNull)
   \<and> room_state_of (two_players revealed JNull) (str ''AAAA'') = Some revealed
   \<and> run_messages (two_players revealed JNull) [(env_ann, 1, start_round)]
       = Some (two_players voting JNull)
   \<and> room_state_of (two_players voting JNull) (str ''AAAA'') = Some voting"
  by (simp add: room_state_of_def eval_defs)

text \<open>
  C4, amended. The state of a room changes only when the host of that room sends
  \<^verbatim>\<open>start_round\<close>, \<^verbatim>\<open>reveal_cards\<close> or \<^verbatim>\<open>reset_round\<close>, and then it becomes
  \<open>voting\<close>, \<open>revealed\<close> or \<open>waiting\<close> respectively, whatever it was before: each
  of the three is carried out in every state, so the cycle waiting, voting, revealed,
  waiting is one of the paths. A room that appears is created by \<^verbatim>\<open>create_room\<close> in
  state \<open>waiting\<close>, and a disconnect changes the state of no room that remains.
\<close>

theorem room_state_transitions:
  "(handleMessage e s w m = Done s' out \<longrightarrow> room_state_of s code = Some st \<longrightarrow>
       room_state_of s' code = Some st' \<longrightarrow> st' \<noteq> st \<longrightarrow>
       (\<exists>a. players s w = Some a \<and> isHost (heap s a) \<and> p_roomCode (heap s a) = code)
       \<and> ((m = start_round \<and> st' = voting) \<or> (m = reveal_cards \<and> st' = revealed)
           \<or> (m = reset_round \<and> st' = waiting)))
   \<and> (players s w = Some a \<longrightarrow> isHost (heap s a) \<longrightarrow>
       room_state_of s (p_roomCode (heap s a)) = Some st \<longrightarrow>
         (\<exists>s1 o1. handleMessage e s w start_round = Done s1 o1
                   \<and> room_state_of s1 (p_roomCode (heap s a)) = Some voting)
       \<and> (\<exists>s2 o2. handleMessage e s w reveal_cards = Done s2 o2
                   \<and> room_state_of s2 (p_roomCode (heap s a)) = Some revealed)
       \<and> (\<exists>s3 o3. handleMessage e s w reset_round = Done s3 o3
                   \<and> room_state_of s3 (p_roomCode (heap s a)) = Some waiting))
   \<and> (handleMessage e s w m = Done s' out \<longrightarrow> room_state_of s code = None \<longrightarrow>
       room_state_of s' code = Some st' \<longrightarrow> st' = waiting \<and> (\<exists>nm. m = create_room nm))
   \<and> (on_close s w = (s'', out') \<longrightarrow> room_state_of s'' code = Some st' \<longrightarrow>
       room_state_of s code = Some st')"
proof (intro conjI impI)
  assume run: "handleMessage e s w m = Done s' out" and st: "room_state_of s code = Some st"
    and st': "room_state_of s' code = Some st'" and ne: "st' \<noteq> st"
  then have diff: "room_state_of s' code \<noteq> room_state_of s code" by simp
  have "(\<exists>a. players s w = Some a \<and> isHost (heap s a) \<and> p_roomCode (heap s a) = code)
       \<and> ((m = start_round \<and> st' = voting) \<or> (m = reveal_cards \<and> st' = revealed)
           \<or> (m = reset_round \<and> st' = waiting))"
  proof (cases m)
    case (create_room nm)
    with run st st' ne state_create [of e s w nm s' out code] show ?thesis by (auto split: if_splits)
  next
    case (join_room nm rc)
    with run st st' ne state_join [of e s w nm rc s' out code] show ?thesis by auto
  next
    case start_round
    with run diff st' state_start [of s w s' out code] show ?thesis by auto
  next
    case (select_card c)
    with run st st' ne state_select [of s w c s' out code] show ?thesis by auto
  next
    case reveal_cards
    with run diff st' state_reveal [of s w s' out code] show ?thesis by auto
  next
    case reset_round
    with run diff st' state_reset [of s w s' out code] show ?thesis by auto
  next
    case close_reveal
    with run st st' ne state_close_reveal [of s w s' out code] show ?thesis by auto
  next
    case other_type
    with run st st' ne show ?thesis by auto
  next
    case null_message
    with run show ?thesis by simp
  qed
  then show "\<exists>a. players s w = Some a \<and> isHost (heap s a) \<and> p_roomCode (heap s a) = code"
    and "(m = start_round \<and> st' = voting) \<or> (m = reveal_cards \<and> st' = revealed)
           \<or> (m = reset_round \<and> st' = waiting)" by blast+
next
  assume h: "players s w = Some a" "isHost (heap s a)"
    "room_state_of s (p_roomCode (heap s a)) = Some st"
  from host_sets_state [OF h]
  show "\<exists>s1 o1. handleMessage e s w start_round = Done s1 o1
                   \<and> room_state_of s1 (p_roomCode (heap s a)) = Some voting"
    and "\<exists>s2 o2. handleMessage e s w reveal_cards = Done s2 o2
                   \<and> room_state_of s2 (p_roomCode (heap s a)) = Some revealed"
    and "\<exists>s3 o3. handleMessage e s w reset_round = Done s3 o3
                   \<and> room_state_of s3 (p_roomCode (heap s a)) = Some waiting"
    by simp_all
next
  assume run: "handleMessage e s w m = Done s' out" and st: "room_state_of s code = None"
    and st': "room_state_of s' code = Some st'"
  then have diff: "room_state_of s' code \<noteq> room_state_of s code" by simp
  have "st' = waiting \<and> (\<exists>nm. m = create_room nm)"
  proof (cases m)
    case (create_room nm)
    with run st st' state_create [of e s w nm s' out code] show ?thesis by (auto split: if_splits)
  next
    case (join_room nm rc)
    with run st st' state_join [of e s w nm rc s' out code] show ?thesis by auto
  next
    case start_round
    with run diff st state_start [of s w s' out code] show ?thesis by auto
  next
    case (select_card c)
    with run st st' state_select [of s w c s' out code] show ?thesis by auto
  next
    case reveal_cards
    with run diff st state_reveal [of s w s' out code] show ?thesis by auto
  next
    case reset_round
    with run diff st state_reset [of s w s' out code] show ?thesis by auto
  next
    case close_reveal
    with run st st' state_close_reveal [of s w s' out code] show ?thesis by auto
  next
    case other_type
    with run st st' show ?thesis by auto
  next
    case null_message
    with run show ?thesis by simp
  qed
  then show "st' = waiting" and "\<exists>nm. m = create_room nm" by blast+
next
  assume "on_close s w = (s'', out')" "room_state_of s'' code = Some st'"
  then show "room_state_of s code = Some st'" by (rule state_on_close)
qed

theorem room_state_transitions_witness:
  "handleMessage env_ann (two_players waiting JNull) 1 start_round
     = Done (two_players voting JNull)
         [(1, round_started (Some (voting_snapshot JNull))),
          (2, round_started (Some (voting_snapshot JNull)))]
   \<and> players (two_players waiting JNull) 1 = Some 0
   \<and> isHost (heap (two_players waiting JNull) 0)
   \<and> p_roomCode (heap (two_players waiting JNull) 0) = str ''AAAA''
   \<and> handleMessage env_ann initial 1 (create_room (JStr (str ''Ann'')))
     = Done ann_alone
         [(1, room_created (str ''AAAA'') (str ''u1'') (str ''t1'')
                (getRoomState ann_alone (str ''AAAA'') False))]
   \<and> room_state_of initial (str ''AAAA'') = None
   \<and> room_state_of ann_alone (str ''AAAA'') = Some waiting
   \<and> room_state_of (fst (on_close (two_players voting JNull) 2)) (str ''AAAA'') = Some voting"
proof -
  let ?W = "two_players waiting JNull"
  let ?V = "two_players voting JNull"
  let ?out = "[(1, round_started (Some (voting_snapshot JNull))),
               (2, round_started (Some (voting_snapshot JNull)))]"
  let ?out1 = "[(1, room_created (str ''AAAA'') (str ''u1'') (str ''t1'')
                      (getRoomState ann_alone (str ''AAAA'') False))]"
  have run: "handleMessage env_ann ?W 1 start_round = Done ?V ?out"
    by (simp add: eval_defs fun_upd_twist)
  have st: "room_state_of ?W (str ''AAAA'') = Some waiting"
           "room_state_of ?V (str ''AAAA'') = Some voting" "voting \<noteq> waiting"
    by (simp_all add: room_state_of_def two_players_def)
  have host: "players ?W 1 = Some 0" "isHost (heap ?W 0)" "p_roomCode (heap ?W 0) = str ''AAAA''"
    by (simp_all add: two_players_def new_player_def)
  have create: "handleMessage env_ann initial 1 (create_room (JStr (str ''Ann''))) = Done ann_alone ?out1"
    by (simp add: eval_defs)
  have st1: "room_state_of initial (str ''AAAA'') = None"
            "room_state_of ann_alone (str ''AAAA'') = Some waiting"
    by (simp_all add: room_state_of_def initial_def ann_alone_def)
  have close: "on_close ?V 2 = (fst (on_close ?V 2), snd (on_close ?V 2))" by simp
  have st2: "room_state_of (fst (on_close ?V 2)) (str ''AAAA'') = Some voting"
    by (simp add: room_state_of_def on_close_def map_delete_def map_of_map_set eval_defs)
  from room_state_transitions [of env_ann ?W 1 start_round ?V ?out "str ''AAAA''" waiting voting 0
         "fst (on_close ?V 2)" "snd (on_close ?V 2)"]
       run st host
  have a: "\<exists>a. players ?W 1 = Some a \<and> isHost (heap ?W a) \<and> p_roomCode (heap ?W a) = str ''AAAA''"
    by blast
  from room_state_transitions [of env_ann initial 1 "create_room (JStr (str ''Ann''))" ann_alone
         ?out1 "str ''AAAA''" waiting waiting 0 "fst (on_close ?V 2)" "snd (on_close ?V 2)"]
       create st1
  have b: "\<exists>nm. create_room (JStr (str ''Ann'')) = create_room nm" by blast
  from run host create st1 st2 a b show ?thesis by blast
qed

section \<open>Reveal secrecy\<close>

text \<open>
  Handler by handler, every message sent carries no snapshot or the snapshot without vote
  visibility of a room of the state the handler leaves, and only the handling of
  \<^verbatim>\<open>reveal_cards\<close> sends a reveal order; a room is \<open>revealed\<close> after an event only if
  it was before or the event is a call of \<^verbatim>\<open>reveal_cards\<close> for it.
\<close>

lemma faithful_create:
  "handle_create_room e s w nm = Done s' out \<Longrightarrow> (x, msg) \<in> set out \<Longrightarrow>
     faithful s' msg \<and> revealOrder_of msg = []"
  unfolding handle_create_room_def Let_def
  by (auto simp: faithful_def getRoomState_def map_of_map_set simp del: generateRoomCode.simps
      split: if_splits option.splits)

lemma faithful_join:
  "handle_join_room e s w nm rc = Done s' out \<Longrightarrow> (x, msg) \<in> set out \<Longrightarrow>
     faithful s' msg \<and> revealOrder_of msg = []"
  unfolding handle_join_room_def Let_def
  by (cases rc)
     (auto simp: faithful_def getRoomState_def map_of_map_set split: if_splits option.splits
        dest!: in_broadcast)

lemma faithful_start:
  "handle_start_round s w = Done s' out \<Longrightarrow> (x, msg) \<in> set out \<Longrightarrow>
     faithful s' msg \<and> revealOrder_of msg = []"
  unfolding handle_start_round_def Let_def
  by (auto simp: faithful_def getRoomState_def map_of_map_set split: if_splits option.splits
      dest!: in_broadcast)

lemma faithful_select:
  "handle_select_card s w c = Done s' out \<Longrightarrow> (x, msg) \<in> set out \<Longrightarrow>
     faithful s' msg \<and> revealOrder_of msg = []"
  unfolding handle_select_card_def Let_def
  by (auto simp: faithful_def getRoomState_def map_of_map_set split: if_splits option.splits
      dest!: in_broadcast)

lemma faithful_reset:
  "handle_reset_round s w = Done s' out \<Longrightarrow> (x, msg) \<in> set out \<Longrightarrow>
     faithful s' msg \<and> revealOrder_of msg = []"
  unfolding handle_reset_round_def Let_def
  by (auto simp: faithful_def getRoomState_def map_of_map_set split: if_splits option.splits
      dest!: in_broadcast)

lemma faithful_close_reveal:
  "handle_close_reveal s w = Done s' out \<Longrightarrow> (x, msg) \<in> set out \<Longrightarrow>
     faithful s' msg \<and> revealOrder_of msg = []"
  unfolding handle_close_reveal_def Let_def
  by (auto simp: faithful_def split: if_splits option.splits dest!: in_broadcast)

lemma faithful_reveal:
  "handle_reveal_cards s w = Done s' out \<Longrightarrow> (x, msg) \<in> set out \<Longrightarrow>
     faithful s' msg
     \<and> (\<exists>snap a. roomState_of msg = Some snap \<and> players s w = Some a \<and> isHost (heap s a)
                 \<and> p_roomCode (heap s a) = roomCode snap)"
  unfolding handle_reveal_cards_def Let_def
  by (auto simp: faithful_def getRoomState_def map_of_map_set view_of_def
      split: if_splits option.splits dest!: in_broadcast)

lemma faithful_on_close:
  "on_close s w = (s', out) \<Longrightarrow> (x, msg) \<in> set out \<Longrightarrow>
     faithful s' msg \<and> revealOrder_of msg = []"
  unfolding on_close_def Let_def
  by (auto simp: faithful_def getRoomState_def map_of_map_set split: if_splits option.splits
      dest!: in_broadcast)

lemma faithful_handleMessage:
  assumes "handleMessage e s w m = Done s' out" and "(x, msg) \<in> set out"
  shows "faithful s' msg
         \<and> (revealOrder_of msg \<noteq> [] \<longrightarrow>
              m = reveal_cards
              \<and> (\<exists>snap a. roomState_of msg = Some snap \<and> players s w = Some a
                          \<and> isHost (heap s a) \<and> p_roomCode (heap s a) = roomCode snap))"
proof (cases m)
  case (create_room nm)
  with assms faithful_create [of e s w nm s' out x msg] show ?thesis by simp
next
  case (join_room nm rc)
  with assms faithful_join [of e s w nm rc s' out x msg] show ?thesis by simp
next
  case start_round
  with assms faithful_start [of s w s' out x msg] show ?thesis by simp
next
  case (select_card c)
  with assms faithful_select [of s w c s' out x msg] show ?thesis by simp
next
  case reveal_cards
  with assms faithful_reveal [of s w s' out x msg] show ?thesis by simp
next
  case reset_round
  with assms faithful_reset [of s w s' out x msg] show ?thesis by simp
next
  case close_reveal
  with assms faithful_close_reveal [of s w s' out x msg] show ?thesis by simp
next
  case other_type
  with assms show ?thesis by simp
next
  case null_message
  with assms show ?thesis by simp
qed

lemma revealed_origin:
  assumes "handleMessage e s w m = Done s' out" and "room_state_of s' c = Some revealed"
  shows "room_state_of s c = Some revealed
         \<or> (m = reveal_cards
            \<and> (\<exists>a. players s w = Some a \<and> isHost (heap s a) \<and> p_roomCode (heap s a) = c))"
proof (cases "room_state_of s' c = room_state_of s c")
  case True
  with assms(2) show ?thesis by simp
next
  case False
  show ?thesis
  proof (cases m)
    case (create_room nm)
    with assms False state_create [of e s w nm s' out c] show ?thesis
      by (auto split: if_splits)
  next
    case (join_room nm rc)
    with assms False state_join [of e s w nm rc s' out c] show ?thesis by auto
  next
    case start_round
    with assms False state_start [of s w s' out c] show ?thesis by auto
  next
    case (select_card v)
    with assms False state_select [of s w v s' out c] show ?thesis by auto
  next
    case reveal_cards
    with assms False state_reveal [of s w s' out c] show ?thesis by auto
  next
    case reset_round
    with assms False state_reset [of s w s' out c] show ?thesis by auto
  next
    case close_reveal
    with assms False state_close_reveal [of s w s' out c] show ?thesis by auto
  next
    case other_type
    with assms False show ?thesis by auto
  next
    case null_message
    with assms show ?thesis by simp
  qed
qed

lemma getRoomState_stamps [simp]:
  "getRoomState (s\<lparr>messageTimestamps := ts\<rparr>) code iv = getRoomState s code iv"
  by (cases "map_of (rooms s) code") (simp_all add: getRoomState_def)

lemma faithful_stamps [simp]:
  "faithful (s\<lparr>messageTimestamps := ts\<rparr>) msg = faithful s msg"
  by (cases "roomState_of msg") (simp_all add: faithful_def)

lemma room_state_stamps [simp]:
  "room_state_of (s\<lparr>messageTimestamps := ts\<rparr>) c = room_state_of s c"
  by (simp add: room_state_of_def)

lemma step_faithful:
  assumes "step s ev = Some (s', out)" and "(x, msg) \<in> set out"
  shows "faithful s' msg
         \<and> (revealOrder_of msg \<noteq> [] \<longrightarrow>
              (\<exists>snap. roomState_of msg = Some snap \<and> is_reveal s ev (roomCode snap)))"
proof (cases ev)
  case (Connect w)
  with assms show ?thesis by simp
next
  case (Close w)
  with assms faithful_on_close [of s w s' out x msg] show ?thesis by simp
next
  case (Message e now w parsed)
  obtain ok ts where crl: "checkRateLimit now (messageTimestamps s w) = (ok, ts)"
    by (cases "checkRateLimit now (messageTimestamps s w)") auto
  let ?s1 = "s\<lparr> messageTimestamps := (messageTimestamps s)(w := Some ts) \<rparr>"
  show ?thesis
  proof (cases "ok \<and> (\<exists>m. parsed = Some m \<and> handleMessage e ?s1 w m \<noteq> Thrown)")
    case False
    with assms Message crl have "msg = error_msg ''Rate limit exceeded. Please slow down.''
        \<or> msg = error_msg ''Invalid message format''"
      by (auto simp: on_message_def Let_def split: outcome.splits option.splits if_splits)
    then show ?thesis by (auto simp: faithful_def)
  next
    case True
    then obtain m where m: "ok" "parsed = Some m" "handleMessage e ?s1 w m \<noteq> Thrown" by blast
    with assms Message crl have run: "handleMessage e ?s1 w m = Done s' out"
      by (auto simp: on_message_def Let_def split: outcome.splits)
    from faithful_handleMessage [OF run assms(2)] m crl Message
    show ?thesis by auto
  qed
qed

lemma step_revealed:
  assumes "step s ev = Some (s', out)" and "room_state_of s' c = Some revealed"
  shows "room_state_of s c = Some revealed \<or> is_reveal s ev c"
proof (cases ev)
  case (Connect w)
  with assms show ?thesis by (auto simp: on_connection_def)
next
  case (Close w)
  with assms state_on_close [of s w s' out c revealed] show ?thesis by simp
next
  case (Message e now w parsed)
  obtain ok ts where crl: "checkRateLimit now (messageTimestamps s w) = (ok, ts)"
    by (cases "checkRateLimit now (messageTimestamps s w)") auto
  let ?s1 = "s\<lparr> messageTimestamps := (messageTimestamps s)(w := Some ts) \<rparr>"
  show ?thesis
  proof (cases "ok \<and> (\<exists>m. parsed = Some m \<and> handleMessage e ?s1 w m \<noteq> Thrown)")
    case False
    with assms Message crl have "s' = ?s1"
      by (auto simp: on_message_def Let_def split: outcome.splits option.splits if_splits)
    with assms show ?thesis by simp
  next
    case True
    then obtain m where m: "ok" "parsed = Some m" "handleMessage e ?s1 w m \<noteq> Thrown" by blast
    with assms Message crl have run: "handleMessage e ?s1 w m = Done s' out"
      by (auto simp: on_message_def Let_def split: outcome.splits)
    from revealed_origin [OF run assms(2)] m crl Message
    show ?thesis by auto
  qed
qed

lemma step_secret:
  assumes "step s ev = Some (s', out)" and "room_state_of s c \<noteq> Some revealed"
    and "\<not> is_reveal s ev c"
  shows "room_state_of s' c \<noteq> Some revealed
         \<and> (\<forall>x msg snap. (x, msg) \<in> set out \<longrightarrow> roomState_of msg = Some snap \<longrightarrow>
               roomCode snap = c \<longrightarrow>
               state snap \<noteq> revealed \<and> cards_hidden snap \<and> revealOrder_of msg = [])"
proof (intro conjI allI impI)
  show st': "room_state_of s' c \<noteq> Some revealed"
    using step_revealed [OF assms(1), of c] assms(2,3) by blast
  fix x msg snap
  assume mem: "(x, msg) \<in> set out" and sn: "roomState_of msg = Some snap" and c: "roomCode snap = c"
  from step_faithful [OF assms(1) mem] sn c assms(3)
  have g: "getRoomState s' c False = Some snap" and ro: "revealOrder_of msg = []"
    by (auto simp: faithful_def)
  from g have "room_state_of s' c = Some (state snap)"
    by (auto simp: getRoomState_def room_state_of_def split: option.splits)
  with st' show ns: "state snap \<noteq> revealed" by auto
  from getRoomState_hidden [OF g] ns show "cards_hidden snap" by blast
  from ro show "revealOrder_of msg = []" .
qed

lemma run_secret:
  "room_state_of s c \<noteq> Some revealed \<Longrightarrow> \<not> reveal_called s evs c \<Longrightarrow>
   sent \<in> set (snd (run_steps s evs)) \<Longrightarrow> (x, msg) \<in> set sent \<Longrightarrow>
   roomState_of msg = Some snap \<Longrightarrow> roomCode snap = c \<Longrightarrow>
     state snap \<noteq> revealed \<and> cards_hidden snap \<and> revealOrder_of msg = []"
proof (induction evs arbitrary: s)
  case Nil
  then show ?case by simp
next
  case (Cons ev evs)
  show ?case
  proof (cases "step s ev")
    case None
    with Cons.prems show ?thesis by simp
  next
    case (Some p)
    obtain s1 o1 where p: "p = (s1, o1)" by (cases p) auto
    with Some have st: "step s ev = Some (s1, o1)" by simp
    from Cons.prems(2) st have nr: "\<not> is_reveal s ev c" "\<not> reveal_called s1 evs c" by auto
    note S = step_secret [OF st Cons.prems(1) nr(1)]
    from Cons.prems(3) st have "sent = o1 \<or> sent \<in> set (snd (run_steps s1 evs))"
      by (auto split: prod.splits)
    then show ?thesis
    proof
      assume "sent = o1"
      with S Cons.prems(4,5,6) show ?thesis by blast
    next
      assume "sent \<in> set (snd (run_steps s1 evs))"
      with Cons.IH [of s1] S nr(2) Cons.prems(4,5,6) show ?thesis by blast
    qed
  qed
qed

text \<open>
  C1. For a room whose state is not \<open>revealed\<close>, the snapshot \<^verbatim>\<open>getRoomState\<close> builds
  without the vote-visibility flag has \<^verbatim>\<open>card = null\<close> for every player, whatever the
  player's stored \<^verbatim>\<open>selectedCard\<close> (of which only \<^verbatim>\<open>hasSelected\<close> tells). Every
  snapshot that a handler sends, on a client message or on a disconnect, is the snapshot
  without vote visibility of the room it names, in the state the handler leaves; a reveal
  order is sent only with the snapshot of a room for which the event is a call of
  \<^verbatim>\<open>reveal_cards\<close>; and a room is \<open>revealed\<close> after an event only if it was before or
  the event is such a call. So, in a run of the server from a state in which the room with
  code \<open>c\<close> is not revealed and in which \<^verbatim>\<open>reveal_cards\<close> is not called for \<open>c\<close>,
  every message sent that carries a snapshot of \<open>c\<close> has a state other than
  \<open>revealed\<close>, \<^verbatim>\<open>card = null\<close> for every player and no reveal order.
\<close>

theorem reveal_secrecy:
  "(map_of (rooms s) code = Some r \<longrightarrow> r_state r \<noteq> revealed \<longrightarrow>
      (\<exists>snap. getRoomState s code False = Some snap \<and> state snap = r_state r
          \<and> map v_card (playersList snap) = map (\<lambda>p. JNull) (r_players r)
          \<and> map hasSelected (playersList snap)
              = map (\<lambda>(x, a). selectedCard (heap s a) \<noteq> JNull) (r_players r)))
   \<and> (step s ev = Some (s', out) \<longrightarrow> (x, msg) \<in> set out \<longrightarrow>
        (\<forall>snap. roomState_of msg = Some snap \<longrightarrow>
                  getRoomState s' (roomCode snap) False = Some snap)
        \<and> (revealOrder_of msg \<noteq> [] \<longrightarrow>
             (\<exists>snap. roomState_of msg = Some snap \<and> is_reveal s ev (roomCode snap))))
   \<and> (step s ev = Some (s', out) \<longrightarrow> room_state_of s' c = Some revealed \<longrightarrow>
        room_state_of s c = Some revealed \<or> is_reveal s ev c)
   \<and> (room_state_of s c \<noteq> Some revealed \<longrightarrow> \<not> reveal_called s evs c \<longrightarrow>
        sent \<in> set (snd (run_steps s evs)) \<longrightarrow> (y, msg') \<in> set sent \<longrightarrow>
        roomState_of msg' = Some snap' \<longrightarrow> roomCode snap' = c \<longrightarrow>
          state snap' \<noteq> revealed \<and> cards_hidden snap' \<and> revealOrder_of msg' = [])"
proof (intro conjI impI)
  assume "map_of (rooms s) code = Some r" "r_state r \<noteq> revealed"
  then show "\<exists>snap. getRoomState s code False = Some snap \<and> state snap = r_state r
          \<and> map v_card (playersList snap) = map (\<lambda>p. JNull) (r_players r)
          \<and> map hasSelected (playersList snap)
              = map (\<lambda>(x, a). selectedCard (heap s a) \<noteq> JNull) (r_players r)"
    by (auto simp: getRoomState_room view_of_def)
next
  assume st: "step s ev = Some (s', out)" and mem: "(x, msg) \<in> set out"
  from step_faithful [OF st mem]
  show "\<forall>snap. roomState_of msg = Some snap \<longrightarrow>
                  getRoomState s' (roomCode snap) False = Some snap"
    by (auto simp: faithful_def)
  assume "revealOrder_of msg \<noteq> []"
  with step_faithful [OF st mem]
  show "\<exists>snap. roomState_of msg = Some snap \<and> is_reveal s ev (roomCode snap)" by blast
next
  assume "step s ev = Some (s', out)" "room_state_of s' c = Some revealed"
  then show "room_state_of s c = Some revealed \<or> is_reveal s ev c" by (rule step_revealed)
next
  assume h: "room_state_of s c \<noteq> Some revealed" "\<not> reveal_called s evs c"
    "sent \<in> set (snd (run_steps s evs))" "(y, msg') \<in> set sent"
    "roomState_of msg' = Some snap'" "roomCode snap' = c"
  from run_secret [OF h]
  show "state snap' \<noteq> revealed" "cards_hidden snap'" "revealOrder_of msg' = []" by blast+
qed

theorem reveal_secrecy_witness:
  "room_state_of (two_players voting (JStr (str ''5''))) (str ''AAAA'') = Some voting
   \<and> getRoomState (two_players voting (JStr (str ''5''))) (str ''AAAA'') False
       = Some (voting_snapshot (JStr (str ''5'')))
   \<and> map v_card (playersList (voting_snapshot (JStr (str ''5'')))) = [JNull, JNull]
   \<and> snd (run_steps (two_players voting (JStr (str ''5'')))
            [Message env_bob 7000 2 (Some (select_card (JStr (str ''8'')))), Close 1])
       = [[(1, player_selected (str ''u2'') (Some (voting_snapshot (JStr (str ''8''))))),
           (2, player_selected (str ''u2'') (Some (voting_snapshot (JStr (str ''8'')))))],
          [(2, became_host),
           (2, player_left (str ''u1'')
                 (Some \<lparr> roomCode = str ''AAAA'', state = voting,
                         playersList = [\<lparr> v_id = str ''u2'', v_name = str ''Bob'',
                                          v_isHost = True, hasSelected = True,
                                          v_card = JNull \<rparr>],
                         cardValues = CARD_VALUES \<rparr>))]]
   \<and> cards_hidden (voting_snapshot (JStr (str ''8'')))
   \<and> cards_hidden \<lparr> roomCode = str ''AAAA'', state = voting,
                     playersList = [\<lparr> v_id = str ''u2'', v_name = str ''Bob'', v_isHost = True,
                                      hasSelected = True, v_card = JNull \<rparr>],
                     cardValues = CARD_VALUES \<rparr>
   \<and> is_reveal (two_players voting (JStr (str ''5''))) (Message env_ann 7000 1 (Some reveal_cards))
        (str ''AAAA'')
   \<and> room_state_of
        (fst (the (step (two_players voting (JStr (str ''5'')))
                     (Message env_ann 7000 1 (Some reveal_cards))))) (str ''AAAA'')
       = Some revealed"
proof -
  let ?S = "two_players voting (JStr (str ''5''))"
  let ?c = "str ''AAAA''"
  let ?r = "\<lparr> r_state = voting, r_players = [(1, 0), (2, 1)], r_createdAt = 1000 \<rparr>"
  let ?M = "player_selected (str ''u2'') (Some (voting_snapshot (JStr (str ''8''))))"
  let ?X = "\<lparr> roomCode = str ''AAAA'', state = voting,
              playersList = [\<lparr> v_id = str ''u2'', v_name = str ''Bob'', v_isHost = True,
                               hasSelected = True, v_card = JNull \<rparr>],
              cardValues = CARD_VALUES \<rparr>"
  let ?L = "player_left (str ''u1'') (Some ?X)"
  let ?evs = "[Message env_bob 7000 2 (Some (select_card (JStr (str ''8'')))), Close 1]"
  let ?rev = "Message env_ann 7000 1 (Some reveal_cards)"
  have room: "map_of (rooms ?S) ?c = Some ?r" "r_state ?r \<noteq> revealed"
    by (simp_all add: two_players_def)
  have st: "room_state_of ?S ?c = Some voting" "room_state_of ?S ?c \<noteq> Some revealed"
    by (simp_all add: room_state_of_def two_players_def)
  have snap: "getRoomState ?S ?c False = Some (voting_snapshot (JStr (str ''5'')))"
    by (simp add: eval_defs)
  have run: "snd (run_steps ?S ?evs) = [[(1, ?M), (2, ?M)], [(2, became_host), (2, ?L)]]"
    by (simp add: on_message_def checkRateLimit_def RATE_LIMIT_MAX_MESSAGES_def on_close_def
        map_delete_def map_of_map_set eval_defs)
  have nocall: "\<not> reveal_called ?S ?evs ?c"
    by (simp add: on_message_def checkRateLimit_def RATE_LIMIT_MAX_MESSAGES_def on_close_def
        map_delete_def map_of_map_set eval_defs)
  have call: "is_reveal ?S ?rev ?c"
    by (simp add: checkRateLimit_def RATE_LIMIT_MAX_MESSAGES_def two_players_def new_player_def)
  have some: "step ?S ?rev \<noteq> None"
    by (simp add: on_message_def checkRateLimit_def RATE_LIMIT_MAX_MESSAGES_def eval_defs)
  then have stp: "step ?S ?rev = Some (fst (the (step ?S ?rev)), snd (the (step ?S ?rev)))"
    by auto
  have rvd: "room_state_of (fst (the (step ?S ?rev))) ?c = Some revealed"
    by (simp add: room_state_of_def on_message_def checkRateLimit_def RATE_LIMIT_MAX_MESSAGES_def
        map_of_map_set eval_defs)
  have in1: "[(1, ?M), (2, ?M)] \<in> set (snd (run_steps ?S ?evs))"
    unfolding run by simp
  have in2: "[(2, became_host), (2, ?L)] \<in> set (snd (run_steps ?S ?evs))"
    unfolding run by simp
  have mem1: "(1, ?M) \<in> set [(1, ?M), (2, ?M)]"
    "roomState_of ?M = Some (voting_snapshot (JStr (str ''8'')))"
    "roomCode (voting_snapshot (JStr (str ''8''))) = ?c"
    by (simp_all add: voting_snapshot_def)
  have mem2: "(2, ?L) \<in> set [(2, became_host), (2, ?L)]" "roomState_of ?L = Some ?X"
    "roomCode ?X = ?c"
    by simp_all
  from reveal_secrecy [of ?S ?c ?r ?rev "fst (the (step ?S ?rev))" "snd (the (step ?S ?rev))"
         1 ?M ?c ?evs "[(1, ?M), (2, ?M)]" 1 ?M "voting_snapshot (JStr (str ''8''))"]
       room snap st nocall in1 mem1 stp rvd
  have a: "map v_card (playersList (voting_snapshot (JStr (str ''5'')))) = [JNull, JNull]"
    and b: "cards_hidden (voting_snapshot (JStr (str ''8'')))"
    by (auto simp: two_players_def)
  from reveal_secrecy [of ?S ?c ?r ?rev "fst (the (step ?S ?rev))" "snd (the (step ?S ?rev))"
         1 ?M ?c ?evs "[(2, became_host), (2, ?L)]" 2 ?L ?X]
       st nocall in2 mem2
  have c: "cards_hidden ?X" by blast
  from st(1) snap a run b c call rvd show ?thesis by blast
qed

section \<open>Host authority\<close>

text \<open>
  What the handlers do to the host flags of a room on the paths the protocol foresees:
  the creator of a room is its only member and its host; a connection that joins a room
  it is not yet a member of is added at the end as a non-host, the others keeping their
  flags; when the host leaves, the first remaining member becomes the only host; when
  another member leaves, the flags of the remaining members stay.
\<close>

lemma map_set_new: "k \<notin> fst ` set kvs \<Longrightarrow> map_set k v kvs = kvs @ [(k, v)]"
  by (induction kvs) auto

lemma create_room_sole_host:
  assumes "length (rooms s) < MAX_ROOMS" and "sanitizeName nm = Some n"
    and "generateRoomCode (map fst (rooms s)) (randoms e) = Some (code, rest)"
  shows "\<exists>s' out r'. handle_create_room e s w nm = Done s' out
           \<and> map_of (rooms s') code = Some r' \<and> room_flags s' r' = [(w, True)]"
  using assms
  by (simp add: handle_create_room_def Let_def map_of_map_set room_flags_def new_player_def
      del: generateRoomCode.simps)

lemma join_room_new_member:
  assumes "isValidRoomCode (toUpperCase e) (JStr (toUpperCase e c0))"
    and "map_of (rooms s) (toUpperCase e c0) = Some r"
    and "length (r_players r) < MAX_PLAYERS_PER_ROOM" and "sanitizeName nm = Some n"
    and "w \<notin> fst ` set (r_players r)" and "\<forall>(x, b)\<in>set (r_players r). b \<noteq> next_addr s"
  shows "\<exists>s' out r'. handle_join_room e s w nm (JStr c0) = Done s' out
           \<and> map_of (rooms s') (toUpperCase e c0) = Some r'
           \<and> room_flags s' r' = room_flags s r @ [(w, False)]"
  using assms
  by (auto simp: handle_join_room_def Let_def map_of_map_set room_flags_def new_player_def
      map_set_new)

lemma on_close_handover:
  assumes "players s w = Some a" and "map_of (rooms s) (p_roomCode (heap s a)) = Some r"
    and "isHost (heap s a)"
    and "map_delete w (r_players r) = (w0, a0) # ps"
    and "\<forall>(x, b)\<in>set ((w0, a0) # ps). \<not> isHost (heap s b)"
    and "\<forall>(x, b)\<in>set ps. b \<noteq> a0"
  shows "\<exists>s' out r'. on_close s w = (s', (w0, became_host) # out)
           \<and> map_of (rooms s') (p_roomCode (heap s a)) = Some r'
           \<and> room_flags s' r' = (w0, True) # map (\<lambda>(x, b). (x, False)) ps"
  using assms
  by (fastforce simp: on_close_def Let_def map_of_map_set room_flags_def)

lemma on_close_member:
  assumes "players s w = Some a" and "map_of (rooms s) (p_roomCode (heap s a)) = Some r"
    and "\<not> isHost (heap s a)"
    and "map_delete w (r_players r) \<noteq> []"
  shows "\<exists>s' out r'. on_close s w = (s', out)
           \<and> map_of (rooms s') (p_roomCode (heap s a)) = Some r'
           \<and> room_flags s' r' = filter (\<lambda>(x, h). x \<noteq> w) (room_flags s r)"
  using assms
  by (auto simp: on_close_def Let_def map_of_map_set room_flags_def map_delete_def filter_map
      comp_def case_prod_unfold)

text \<open>
  C2. The claim holds of the code's own intent (the disconnect handler hands the host
  role over), but \<^verbatim>\<open>join_room\<close> does not check whether the connection is already a
  member: \<^verbatim>\<open>room.players.set(ws, player)\<close> then replaces the connection's entry by the
  new, non-host player. Ann creates room AAAA and is its only member and host; the same
  connection then sends \<^verbatim>\<open>join_room\<close> with that code: the room is left with one member
  and no host.
\<close>

theorem host_lost_on_rejoin:
  "run_messages initial [(env_ann, 1, create_room (JStr (str ''Ann'')))] = Some ann_alone
   \<and> host_flags ann_alone = [(str ''AAAA'', [(1, True)])]
   \<and> map_option host_flags
        (run_messages ann_alone
           [(env_bob, 1, join_room (JStr (str ''Ann'')) (JStr (str ''AAAA'')))])
       = Some [(str ''AAAA'', [(1, False)])]"
  by (simp add: host_flags_def eval_defs)

end
